theory Spec2Isabelle
  imports Complex_Main "HOL-Library.Sublist"
begin

section \<open>Deep Search: research orchestrator, event stream and client reducer\<close>

text \<open>
  The development embeds the Deep Search route handler (\<open>POST\<close>, \<open>executeWebSearch\<close>,
  \<open>createResearchPlan\<close>, \<open>analyzeResults\<close>) and the client hook \<open>useDeepSearch\<close>
  (\<open>handleServerEvent\<close>, \<open>updateProgress\<close>, \<open>addUpdate\<close>, \<open>recoverFromDatabase\<close>).

  The external services are inputs of the model: the language model, the Tavily search
  provider, the database and the platform's URL parser each answer with a value or with
  the message of the exception they throw (\<open>Inl\<close>). Wall-clock timestamps and random
  identifiers (the frame envelope's \<open>timestamp\<close>, \<open>found_at\<close>, \<open>created_at\<close>,
  \<open>plan_id\<close>, the \<open>id\<close> of a client update) are left out: no branch of the code reads
  them. JavaScript numbers are integers (\<open>int\<close>) where the code holds counts, step
  numbers and percentages, and rationals where it divides.
\<close>

subsection \<open>Research plan and its schema\<close>

record search_spec =
  s_priority :: int
  s_query :: string
  s_type :: string

record analysis_spec =
  a_type :: string
  a_description :: string
  a_priority :: int

record research_plan =
  searches :: "search_spec list"
  analyses :: "analysis_spec list"

definition ResearchPlanSchema :: "research_plan \<Rightarrow> bool" where
  "ResearchPlanSchema p \<longleftrightarrow>
     list_all (\<lambda>s. 1 \<le> s_priority s \<and> s_priority s \<le> 5 \<and> s_type s = ''web'') (searches p) \<and>
     length (searches p) = 5 \<and>
     list_all (\<lambda>a. 1 \<le> a_priority a \<and> a_priority a \<le> 5) (analyses p) \<and>
     length (analyses p) = 5"

subsection \<open>The search provider call\<close>

record tavily_item =
  t_title :: string
  t_url :: string
  t_content :: string

record search_options =
  searchDepth :: string
  includeAnswer :: bool
  maxResults :: int

record web_item =
  w_source :: string
  w_title :: string
  w_url :: string
  w_content :: string

record web_search =
  ws_type :: string
  ws_query :: "string \<times> int"
  ws_results :: "web_item list"
  ws_error :: "string option"

type_synonym search_provider = "string \<Rightarrow> search_options \<Rightarrow> string + tavily_item list"

text \<open>The options object handed to \<open>tvly.search\<close>.\<close>

definition tavily_options :: "string \<Rightarrow> int \<Rightarrow> search_options" where
  "tavily_options depth priority =
     \<lparr> searchDepth = (if depth = ''advanced'' then ''advanced'' else ''basic''),
       includeAnswer = True,
       maxResults = max 4 (min (8 - priority) 12) \<rparr>"

text \<open>\<open>executeWebSearch\<close>: an exception of the provider is caught and turned into an empty
  result list with the message kept in \<open>error\<close>.\<close>

definition executeWebSearch :: "search_provider \<Rightarrow> string \<Rightarrow> string \<Rightarrow> int \<Rightarrow> web_search" where
  "executeWebSearch tvly query depth priority =
     (case tvly query (tavily_options depth priority) of
        Inr results \<Rightarrow>
          \<lparr> ws_type = ''web'', ws_query = (query, priority),
            ws_results = map (\<lambda>r. \<lparr> w_source = ''web'', w_title = t_title r,
                                    w_url = t_url r, w_content = t_content r \<rparr>) results,
            ws_error = None \<rparr>
      | Inl err \<Rightarrow>
          \<lparr> ws_type = ''web'', ws_query = (query, priority),
            ws_results = [], ws_error = Some err \<rparr>)"

subsection \<open>Numbers in text\<close>

text \<open>Template literals print numbers in decimal.\<close>

function show_nat :: "nat \<Rightarrow> string" where
  "show_nat n = (if n < 10 then [char_of (48 + n)]
                 else show_nat (n div 10) @ [char_of (48 + n mod 10)])"
  by pat_completeness auto
termination
  by (relation "measure (\<lambda>n. n)") auto

declare show_nat.simps [simp del]

definition show_int :: "int \<Rightarrow> string" where
  "show_int i = (if i < 0 then CHR ''-'' # show_nat (nat (- i)) else show_nat (nat i))"

subsection \<open>Frames of the event stream\<close>

text \<open>The lifecycle states of a run, and the payloads a completed step carries. The status
  of a step is kept as the string it is on the wire and in the database row.\<close>

datatype phase = Planning | Searching | Analyzing | Complete

record source_ref =
  sr_title :: string
  sr_url :: string

record key_source =
  ks_title :: string
  ks_url :: string
  ks_relevance :: rat

datatype step_data =
  Search_Data string nat "source_ref list"
| Analysis_Data string nat "string list option" "key_source list"

text \<open>One constructor per \<open>type\<close> of frame; \<open>Unknown_Frame\<close> stands for any other
  \<open>type\<close> string. \<open>Step_Start step title description status\<close>,
  \<open>Step_Complete step title description status data\<close>, \<open>Research_Plan plan totalSteps\<close>,
  \<open>Report_Complete fullReport citationCount sources\<close>, \<open>Error_Frame message step\<close>.\<close>

datatype frame =
  Step_Start nat string string string
| Step_Complete nat string string string "step_data option"
| Research_Plan research_plan nat
| Progress int
| Status_Change phase
| Report_Chunk string
| Report_Complete string nat "key_source list option"
| Error_Frame string string
| Unknown_Frame string

subsection \<open>The persisted snapshot\<close>

record link =
  l_title :: string
  l_url :: string
  l_relevance :: rat
  l_domain :: string

record search_link_record =
  sl_step :: nat
  sl_query :: string
  sl_priority :: int
  sl_links :: "link list"
  sl_status :: string
  sl_result_count :: nat

record analysis_link_record =
  al_step :: nat
  al_type :: string
  al_description :: string
  al_key_sources :: "key_source list"
  al_findings_count :: nat
  al_status :: string

record plan_links =
  pl_searches :: "search_link_record list"
  pl_analyses :: "analysis_link_record list"
  total_links :: nat
  unique_domains :: "string list"
  completion_rate :: int

record citation =
  c_id :: nat
  c_title :: string
  c_url :: string
  c_domain :: string
  c_relevance :: rat
  c_category :: string

text \<open>The columns of a message row that the recovery path reads; \<open>None\<close> is a column
  that is null or absent.\<close>

record message_data =
  research_plan_links :: "plan_links option"
  research_plan :: "research_plan option"
  research_status :: "phase option"
  research_progress :: "int option"
  content :: "string option"
  citation_sources :: "citation list option"

subsection \<open>The client hook \<open>useDeepSearch\<close>\<close>

record research_update =
  u_step :: nat
  u_title :: string
  u_description :: string
  u_status :: string
  u_data :: "step_data option"

record deep_search_state =
  isActive :: bool
  progress :: int
  status :: phase
  updates :: "research_update list"
  result :: "string option"
  error :: "string option"
  researchPlan :: "research_plan option"
  finalSources :: "key_source list option"
  planLinks :: "plan_links option"

definition initial_state :: deep_search_state where
  "initial_state =
     \<lparr> isActive = False, progress = 0, status = Planning, updates = [], result = None,
       error = None, researchPlan = None, finalSources = None, planLinks = None \<rparr>"

text \<open>The state \<open>startDeepSearch\<close> resets to before it reads the stream.\<close>

definition started_state :: deep_search_state where
  "started_state = initial_state \<lparr> isActive := True \<rparr>"

definition addUpdate :: "nat \<Rightarrow> string \<Rightarrow> string \<Rightarrow> string \<Rightarrow> deep_search_state \<Rightarrow> deep_search_state" where
  "addUpdate step title description st prev =
     prev \<lparr> updates := updates prev @
              [\<lparr> u_step = step, u_title = title, u_description = description,
                 u_status = st, u_data = None \<rparr>] \<rparr>"

definition updateProgress :: "int \<Rightarrow> phase option \<Rightarrow> deep_search_state \<Rightarrow> deep_search_state" where
  "updateProgress p st prev =
     (let prev' = prev \<lparr> progress := min 100 (max 0 p) \<rparr>
      in case st of None \<Rightarrow> prev' | Some s \<Rightarrow> prev' \<lparr> status := s \<rparr>)"

text \<open>\<open>handleServerEvent\<close>, one equation per \<open>case\<close> of the switch. The callbacks of the
  caller (\<open>onUpdate\<close>, \<open>onProgress\<close>, ...) do not touch the state and are left out.\<close>

fun handleServerEvent :: "frame \<Rightarrow> deep_search_state \<Rightarrow> deep_search_state" where
  "handleServerEvent (Step_Start step title description st) prev =
     (let s1 = addUpdate step title description ''running'' prev
      in if step = 1 then s1 \<lparr> status := Planning \<rparr>
         else if step \<le> 6 then s1 \<lparr> status := Searching \<rparr>
         else s1 \<lparr> status := Analyzing \<rparr>)"
| "handleServerEvent (Step_Complete step title description st d) prev =
     prev \<lparr> updates := map (\<lambda>u. if u_step u = step
                                 then u \<lparr> u_status := ''completed'', u_description := description,
                                         u_data := d \<rparr>
                                 else u) (updates prev) \<rparr>"
| "handleServerEvent (Research_Plan plan totalSteps) prev = prev \<lparr> researchPlan := Some plan \<rparr>"
| "handleServerEvent (Progress p) prev = updateProgress p None prev"
| "handleServerEvent (Status_Change s) prev = prev \<lparr> status := s \<rparr>"
| "handleServerEvent (Report_Chunk chunk) prev =
     prev \<lparr> result := Some ((case result prev of None \<Rightarrow> [] | Some r \<Rightarrow> r) @ chunk) \<rparr>"
| "handleServerEvent (Report_Complete fullReport citationCount sources) prev =
     prev \<lparr> result := Some fullReport, finalSources := sources, isActive := False,
            progress := 100, status := Complete \<rparr>"
| "handleServerEvent (Error_Frame message step) prev =
     prev \<lparr> error := Some message, isActive := False, status := Complete \<rparr>"
| "handleServerEvent (Unknown_Frame t) prev = prev"

text \<open>Folding a frame sequence, first frame first.\<close>

fun handle_all :: "frame list \<Rightarrow> deep_search_state \<Rightarrow> deep_search_state" where
  "handle_all [] s = s"
| "handle_all (f # fs) s = handle_all fs (handleServerEvent f s)"

subsection \<open>Recovery from the database row\<close>

definition recovered_search_update :: "search_link_record \<Rightarrow> research_update" where
  "recovered_search_update search =
     \<lparr> u_step = sl_step search,
       u_title = ''Web Search '' @ show_int (int (sl_step search) - 1),
       u_description = ''Found '' @ show_nat (sl_result_count search) @ '' sources for \"''
                         @ sl_query search @ ''\"'',
       u_status = sl_status search,
       u_data = Some (Search_Data (sl_query search) (sl_result_count search)
                  (map (\<lambda>l. \<lparr> sr_title = l_title l, sr_url = l_url l \<rparr>) (take 4 (sl_links search)))) \<rparr>"

definition recovered_analysis_update :: "analysis_link_record \<Rightarrow> research_update" where
  "recovered_analysis_update analysis =
     \<lparr> u_step = al_step analysis,
       u_title = ''Analysis '' @ show_int (int (al_step analysis) - 6) @ '': '' @ al_type analysis,
       u_description = ''Analysis completed - '' @ show_nat (al_findings_count analysis)
                         @ '' key findings'',
       u_status = al_status analysis,
       u_data = Some (Analysis_Data (al_type analysis) (al_findings_count analysis) None
                  (take 4 (al_key_sources analysis))) \<rparr>"

definition truthy_text :: "string option \<Rightarrow> bool" where
  "truthy_text c = (case c of None \<Rightarrow> False | Some t \<Rightarrow> t \<noteq> [])"

text \<open>\<open>recoverFromDatabase\<close> returns whether it recovered, and the state it leaves.\<close>

definition recoverFromDatabase ::
  "message_data option \<Rightarrow> deep_search_state \<Rightarrow> bool \<times> deep_search_state" where
  "recoverFromDatabase messageData prev =
     (case messageData of
        None \<Rightarrow> (False, prev)
      | Some m \<Rightarrow>
          (case research_plan_links m of
             None \<Rightarrow> (False, prev)
           | Some links \<Rightarrow>
               (let planning =
                      (case research_plan m of
                         None \<Rightarrow> []
                       | Some _ \<Rightarrow> [\<lparr> u_step = 1, u_title = ''Research Planning'',
                                      u_description = ''Research plan created successfully'',
                                      u_status = ''completed'', u_data = None \<rparr>]);
                    report =
                      (if research_status m = Some Complete \<and> truthy_text (content m)
                       then [\<lparr> u_step = 12, u_title = ''Final Report Generation'',
                               u_description = ''Report generated successfully'',
                               u_status = ''completed'', u_data = None \<rparr>]
                       else []);
                    recoveredUpdates =
                      planning @ map recovered_search_update (pl_searches links)
                        @ map recovered_analysis_update (pl_analyses links) @ report
                in (True,
                    \<lparr> isActive = (research_status m \<noteq> Some Complete),
                      progress = (case research_progress m of None \<Rightarrow> 0 | Some p \<Rightarrow> p),
                      status = (case research_status m of None \<Rightarrow> Planning | Some s \<Rightarrow> s),
                      updates = recoveredUpdates,
                      result = (if truthy_text (content m) then content m else None),
                      error = None,
                      researchPlan = research_plan m,
                      finalSources =
                        (case citation_sources m of
                           None \<Rightarrow> None
                         | Some cs \<Rightarrow>
                             if length cs > 0
                             then Some (map (\<lambda>source.
                                    \<lparr> ks_title = c_title source, ks_url = c_url source,
                                      ks_relevance = (if c_relevance source = 0 then 7 / 10
                                                      else c_relevance source) \<rparr>) cs)
                             else None),
                      planLinks = Some links \<rparr>))))"

section \<open>The research orchestrator\<close>

subsection \<open>Analysis results and their schema\<close>

record finding =
  f_insight :: string
  f_evidence :: "string list"
  f_confidence :: rat
  f_source_links :: "source_ref list"

record analysis_result =
  findings :: "finding list"
  implications :: "string list"
  limitations :: "string list"
  key_sources :: "key_source list"

definition AnalysisResultSchema :: "analysis_result \<Rightarrow> bool" where
  "AnalysisResultSchema r \<longleftrightarrow>
     list_all (\<lambda>f. 0 \<le> f_confidence f \<and> f_confidence f \<le> 1) (findings r) \<and>
     list_all (\<lambda>k. 0 \<le> ks_relevance k \<and> ks_relevance k \<le> 1) (key_sources r)"

record analysis_entry =
  ae_type :: string
  ae_description :: string
  ae_result :: analysis_result

subsection \<open>External services and observable effects\<close>

text \<open>
  What the outside world answers during one run. \<open>plan_reply\<close> is the object the model
  produces for the planning prompt, \<open>tvly_search i\<close> the provider's behaviour at the
  \<open>i\<close>-th search, \<open>analysis_reply i\<close> the model's object for the \<open>i\<close>-th analysis,
  \<open>report_reply\<close> either the failure of \<open>streamText\<close> or the text fragments of the
  stream with the failure that ends it early, if any. \<open>insert_reply\<close> is the id of the
  inserted message row (\<open>None\<close> when the insert fails), \<open>url_hostname\<close> the platform's
  \<open>new URL(u).hostname\<close> (\<open>None\<close> when the constructor throws). The prompts are not
  modelled. The consumer is assumed to stay attached, so that \<open>controller.enqueue\<close> does
  not fail.
\<close>

record services =
  plan_reply :: "string + research_plan"
  insert_reply :: "string option"
  tvly_search :: "nat \<Rightarrow> search_provider"
  analysis_reply :: "nat \<Rightarrow> string + analysis_result"
  report_reply :: "string + string list \<times> string option"
  url_hostname :: "string \<Rightarrow> string option"

text \<open>The columns an update of the message row sets. The columns \<open>search_results\<close>,
  \<open>analysis_results\<close> and \<open>research_steps\<close> are written but never read back by the
  recovery path, and are left out.\<close>

record message_update =
  mu_plan_links :: plan_links
  mu_status :: phase
  mu_progress :: int
  mu_content :: "string option"
  mu_citations :: "citation list option"

datatype service_call =
  Plan_Call string
| Search_Call string search_options
| Analysis_Call string string
| Report_Call

text \<open>What a run does, in order: frames enqueued on the stream, calls to the adapters,
  writes to the message row, and the closing of the stream.\<close>

datatype effect =
  Emit frame
| Request service_call
| Db_Insert message_data
| Db_Update string message_update
| Close

record run_state =
  searchResults :: "web_search list"
  analysisResults :: "analysis_entry list"
  planLinksData :: plan_links
  currentProgress :: int
  currentStatus :: phase

text \<open>A piece of the run yields the effects it had and either the message of the
  exception that left it or its value.\<close>

type_synonym 'a outcome = "effect list \<times> (string + 'a)"

definition js_round :: "rat \<Rightarrow> int" where
  "js_round x = \<lfloor>x + 1 / 2\<rfloor>"

subsection \<open>Planning\<close>

text \<open>\<open>generateObject\<close> validates the model's object against the schema and throws when
  it does not match.\<close>

definition createResearchPlan :: "services \<Rightarrow> string + research_plan" where
  "createResearchPlan sv =
     (case plan_reply sv of
        Inl err \<Rightarrow> Inl err
      | Inr p \<Rightarrow> if ResearchPlanSchema p then Inr p
                 else Inl ''No object generated: response did not match schema.'')"

definition analyzeResults :: "services \<Rightarrow> nat \<Rightarrow> string + analysis_result" where
  "analyzeResults sv i =
     (case analysis_reply sv i of
        Inl err \<Rightarrow> Inl err
      | Inr r \<Rightarrow> if AnalysisResultSchema r then Inr r
                 else Inl ''No object generated: response did not match schema.'')"

definition initial_links :: plan_links where
  "initial_links = \<lparr> pl_searches = [], pl_analyses = [], total_links = 0, unique_domains = [],
                      completion_rate = 0 \<rparr>"

definition planning :: "services \<Rightarrow> string \<Rightarrow> (research_plan \<times> string option \<times> run_state) outcome" where
  "planning sv topic =
     (let t0 = [Emit (Step_Start 1 ''Research Planning'' ''Creating comprehensive research plan...''
                        ''running''),
                Request (Plan_Call topic)]
      in case createResearchPlan sv of
           Inl err \<Rightarrow> (t0, Inl err)
         | Inr plan \<Rightarrow>
             (t0 @
              [Emit (Step_Complete 1 ''Research Planning'' ''Research plan created successfully''
                       ''completed'' None),
               Emit (Research_Plan plan (5 + length (analyses plan))),
               Db_Insert \<lparr> research_plan_links = Some initial_links,
                           research_plan = Some plan,
                           research_status = Some Planning, research_progress = Some 10,
                           content = Some [], citation_sources = None \<rparr>],
              Inr (plan, insert_reply sv,
                   \<lparr> searchResults = [], analysisResults = [], planLinksData = initial_links,
                     currentProgress = 0, currentStatus = Planning \<rparr>)))"

subsection \<open>Searching\<close>

text \<open>The \<open>links\<close> of a search record; \<open>new URL(r.url)\<close> throws on a string that is not
  a URL, which leaves the mapping.\<close>

definition links_of :: "(string \<Rightarrow> string option) \<Rightarrow> web_item list \<Rightarrow> link list option" where
  "links_of host rs =
     those (map (\<lambda>r. map_option (\<lambda>d. \<lparr> l_title = w_title r, l_url = w_url r,
                                        l_relevance = 8 / 10, l_domain = d \<rparr>) (host (w_url r))) rs)"

text \<open>\<open>[...new Set(xs)]\<close>: the first occurrence of every element, in order.\<close>

definition set_spread :: "'a list \<Rightarrow> 'a list" where
  "set_spread xs = fold (\<lambda>x acc. if x \<in> set acc then acc else acc @ [x]) xs []"

text \<open>Lines 169 to 189: the record of a search is appended to the snapshot.\<close>

definition append_search :: "nat \<Rightarrow> search_spec \<Rightarrow> web_search \<Rightarrow> link list \<Rightarrow> plan_links \<Rightarrow> plan_links" where
  "append_search stepNumber search res links pld =
     pld \<lparr> pl_searches := pl_searches pld @
              [\<lparr> sl_step = stepNumber, sl_query = s_query search, sl_priority = s_priority search,
                 sl_links = links, sl_status = ''completed'',
                 sl_result_count = length (ws_results res) \<rparr>],
           total_links := total_links pld + length (ws_results res),
           unique_domains := set_spread (unique_domains pld @ map l_domain links) \<rparr>"

definition db_update :: "string option \<Rightarrow> message_update \<Rightarrow> effect list" where
  "db_update assistantMessageId u =
     (case assistantMessageId of None \<Rightarrow> [] | Some mid \<Rightarrow> [Db_Update mid u])"

definition search_step ::
  "services \<Rightarrow> string \<Rightarrow> research_plan \<Rightarrow> string option \<Rightarrow> nat \<Rightarrow> run_state \<Rightarrow> run_state outcome" where
  "search_step sv depth plan assistantMessageId i st =
     (let search = searches plan ! i;
          stepNumber = i + 2;
          t0 = [Emit (Step_Start stepNumber (''Web Search '' @ show_nat (i + 1))
                        (''Searching: \"'' @ s_query search @ ''\"'') ''running''),
                Request (Search_Call (s_query search) (tavily_options depth (s_priority search)))];
          res = executeWebSearch (tvly_search sv i) (s_query search) depth (s_priority search)
      in case links_of (url_hostname sv) (ws_results res) of
           None \<Rightarrow> (t0, Inl ''Invalid URL'')
         | Some links \<Rightarrow>
             (let st1 = st \<lparr> searchResults := searchResults st @ [res],
                             planLinksData := append_search stepNumber search res links
                                                (planLinksData st),
                             currentProgress :=
                               js_round (of_nat stepNumber
                                         / of_nat (5 + length (analyses plan)) * 70) \<rparr>
              in (t0 @
                  [Emit (Step_Complete stepNumber (''Web Search '' @ show_nat (i + 1))
                           (''Found '' @ show_nat (length (ws_results res)) @ '' sources'')
                           ''completed''
                           (Some (Search_Data (s_query search) (length (ws_results res))
                              (map (\<lambda>r. \<lparr> sr_title = w_title r, sr_url = w_url r \<rparr>)
                                 (take 4 (ws_results res)))))),
                   Emit (Progress (currentProgress st1))] @
                  db_update assistantMessageId
                    \<lparr> mu_plan_links = planLinksData st1, mu_status = currentStatus st1,
                      mu_progress = currentProgress st1, mu_content = None,
                      mu_citations = None \<rparr>,
                  Inr st1)))"

function search_loop ::
  "services \<Rightarrow> string \<Rightarrow> research_plan \<Rightarrow> string option \<Rightarrow> nat \<Rightarrow> run_state \<Rightarrow> run_state outcome" where
  "search_loop sv depth plan assistantMessageId i st =
     (if i < length (searches plan)
      then (case search_step sv depth plan assistantMessageId i st of
              (t, Inl err) \<Rightarrow> (t, Inl err)
            | (t, Inr st1) \<Rightarrow>
                (case search_loop sv depth plan assistantMessageId (i + 1) st1 of
                   (t', r) \<Rightarrow> (t @ t', r)))
      else ([], Inr st))"
  by pat_completeness auto
termination
  by (relation "measure (\<lambda>(sv, depth, plan, mid, i, st). length (searches plan) - i)")
     auto

declare search_loop.simps [simp del]

subsection \<open>Analysing\<close>

definition append_analysis :: "nat \<Rightarrow> analysis_spec \<Rightarrow> analysis_result \<Rightarrow> int \<Rightarrow> plan_links \<Rightarrow> plan_links" where
  "append_analysis stepNumber analysis res rate pld =
     pld \<lparr> pl_analyses := pl_analyses pld @
              [\<lparr> al_step = stepNumber, al_type = a_type analysis,
                 al_description = a_description analysis,
                 al_key_sources =
                   map (\<lambda>source. \<lparr> ks_title = ks_title source, ks_url = ks_url source,
                                    ks_relevance = (if ks_relevance source = 0 then 7 / 10
                                                    else ks_relevance source) \<rparr>)
                     (key_sources res),
                 al_findings_count = length (findings res), al_status = ''completed'' \<rparr>],
           completion_rate := rate \<rparr>"

definition analysis_step ::
  "services \<Rightarrow> research_plan \<Rightarrow> string option \<Rightarrow> nat \<Rightarrow> run_state \<Rightarrow> run_state outcome" where
  "analysis_step sv plan assistantMessageId i st =
     (let analysis = analyses plan ! i;
          stepNumber = 7 + i;
          t0 = [Emit (Step_Start stepNumber
                        (''Analysis '' @ show_nat (i + 1) @ '': '' @ a_type analysis)
                        (a_description analysis) ''running''),
                Request (Analysis_Call (a_type analysis) (a_description analysis))]
      in case analyzeResults sv i of
           Inl err \<Rightarrow> (t0, Inl err)
         | Inr res \<Rightarrow>
             (let st1 = st \<lparr> analysisResults := analysisResults st @
                               [\<lparr> ae_type = a_type analysis,
                                  ae_description = a_description analysis, ae_result = res \<rparr>],
                             planLinksData :=
                               append_analysis stepNumber analysis res
                                 (js_round (of_nat (i + 1) / of_nat (length (analyses plan)) * 100))
                                 (planLinksData st),
                             currentProgress :=
                               js_round (70 + of_nat (i + 1) / of_nat (length (analyses plan)) * 25) \<rparr>
              in (t0 @
                  [Emit (Step_Complete stepNumber
                           (''Analysis '' @ show_nat (i + 1) @ '': '' @ a_type analysis)
                           (''Analysis completed - '' @ show_nat (length (findings res))
                              @ '' key findings'')
                           ''completed''
                           (Some (Analysis_Data (a_type analysis) (length (findings res))
                              (Some (map f_insight (take 2 (findings res))))
                              (take 4 (key_sources res))))),
                   Emit (Progress (currentProgress st1))] @
                  db_update assistantMessageId
                    \<lparr> mu_plan_links = planLinksData st1, mu_status = currentStatus st1,
                      mu_progress = currentProgress st1, mu_content = None,
                      mu_citations = None \<rparr>,
                  Inr st1)))"

function analysis_loop ::
  "services \<Rightarrow> research_plan \<Rightarrow> string option \<Rightarrow> nat \<Rightarrow> run_state \<Rightarrow> run_state outcome" where
  "analysis_loop sv plan assistantMessageId i st =
     (if i < length (analyses plan)
      then (case analysis_step sv plan assistantMessageId i st of
              (t, Inl err) \<Rightarrow> (t, Inl err)
            | (t, Inr st1) \<Rightarrow>
                (case analysis_loop sv plan assistantMessageId (i + 1) st1 of
                   (t', r) \<Rightarrow> (t @ t', r)))
      else ([], Inr st))"
  by pat_completeness auto
termination
  by (relation "measure (\<lambda>(sv, plan, mid, i, st). length (analyses plan) - i)") auto

declare analysis_loop.simps [simp del]

subsection \<open>Reporting\<close>

text \<open>The citation list: every URL once, the first occurrence giving title and relevance.
  The keys of \<open>sourceMap\<close> are at every moment the URLs of \<open>allSources\<close>.\<close>

definition add_source :: "string \<Rightarrow> string \<Rightarrow> rat \<Rightarrow> key_source list \<Rightarrow> key_source list" where
  "add_source title url relevance allSources =
     (if url \<noteq> [] \<and> url \<notin> set (map ks_url allSources)
      then allSources @ [\<lparr> ks_title = (if title = [] then ''Untitled'' else title),
                          ks_url = url, ks_relevance = relevance \<rparr>]
      else allSources)"

definition collect_sources :: "web_search list \<Rightarrow> analysis_entry list \<Rightarrow> key_source list" where
  "collect_sources srs ars =
     fold (\<lambda>analysis. fold (\<lambda>source. add_source (ks_title source) (ks_url source)
                                       (if ks_relevance source = 0 then 7 / 10
                                        else ks_relevance source))
                         (key_sources (ae_result analysis)))
       ars
       (fold (\<lambda>searchResult. fold (\<lambda>r. add_source (w_title r) (w_url r) (8 / 10))
                                (ws_results searchResult))
          srs [])"

definition toLowerCase :: "string \<Rightarrow> string" where
  "toLowerCase s =
     map (\<lambda>c. if 65 \<le> (of_char c :: nat) \<and> (of_char c :: nat) \<le> 90
              then char_of ((of_char c :: nat) + 32) else c) s"

definition includes_str :: "string \<Rightarrow> string \<Rightarrow> bool" where
  "includes_str s part = sublist part s"

definition categorizeSource :: "(string \<Rightarrow> string option) \<Rightarrow> string \<Rightarrow> string \<Rightarrow> string option" where
  "categorizeSource host title url =
     (case host url of
        None \<Rightarrow> None
      | Some h \<Rightarrow>
          (let domain = toLowerCase h; titleLower = toLowerCase title
           in Some (if includes_str domain ''academic'' \<or> includes_str domain ''edu''
                       \<or> includes_str domain ''research'' then ''academic''
                    else if includes_str domain ''news'' \<or> includes_str domain ''bbc''
                       \<or> includes_str domain ''reuters'' then ''news''
                    else if includes_str domain ''gov'' \<or> includes_str domain ''official'' then ''official''
                    else if includes_str titleLower ''study'' \<or> includes_str titleLower ''research''
                      then ''research''
                    else if includes_str titleLower ''analysis'' \<or> includes_str titleLower ''report''
                      then ''analysis''
                    else ''general'')))"

definition citation_of :: "(string \<Rightarrow> string option) \<Rightarrow> nat \<times> key_source \<Rightarrow> citation option" where
  "citation_of host p =
     (case p of (index, source) \<Rightarrow>
        (case host (ks_url source) of
           None \<Rightarrow> None
         | Some d \<Rightarrow>
             (case categorizeSource host (ks_title source) (ks_url source) of
                None \<Rightarrow> None
              | Some cat \<Rightarrow>
                  Some \<lparr> c_id = index + 1, c_title = ks_title source, c_url = ks_url source,
                         c_domain = d,
                         c_relevance = (if ks_relevance source = 0 then 7 / 10
                                        else ks_relevance source),
                         c_category = cat \<rparr>)))"

definition citations_of :: "(string \<Rightarrow> string option) \<Rightarrow> key_source list \<Rightarrow> citation list option" where
  "citations_of host allSources = those (map (citation_of host) (enumerate 0 allSources))"

definition reporting :: "services \<Rightarrow> string option \<Rightarrow> run_state \<Rightarrow> unit outcome" where
  "reporting sv assistantMessageId st =
     (let t0 = [Emit (Step_Start 12 ''Final Report Generation''
                        ''Generating comprehensive report with citations...'' ''running''),
                Request Report_Call];
          allSources = collect_sources (searchResults st) (analysisResults st)
      in case report_reply sv of
           Inl err \<Rightarrow> (t0, Inl err)
         | Inr (chunks, failure) \<Rightarrow>
             (let t1 = t0 @
                    [Emit (Step_Complete 12 ''Final Report Generation''
                             ''Report generated successfully'' ''completed'' None),
                     Emit (Progress 95)] @
                    map (\<lambda>chunk. Emit (Report_Chunk chunk)) chunks
              in case failure of
                   Some err \<Rightarrow> (t1, Inl err)
                 | None \<Rightarrow>
                     (let finalReport = concat chunks;
                          t2 = t1 @
                            [Emit (Report_Complete finalReport (length allSources) (Some allSources)),
                             Emit (Progress 100),
                             Emit (Status_Change Complete)]
                      in case assistantMessageId of
                           None \<Rightarrow> (t2, Inr ())
                         | Some mid \<Rightarrow>
                             (case citations_of (url_hostname sv) allSources of
                                None \<Rightarrow> (t2, Inl ''Invalid URL'')
                              | Some cs \<Rightarrow>
                                  (t2 @
                                   [Db_Update mid
                                      \<lparr> mu_plan_links = (planLinksData st) \<lparr> completion_rate := 100 \<rparr>,
                                        mu_status = Complete, mu_progress = 100,
                                        mu_content = Some finalReport,
                                        mu_citations = Some cs \<rparr>],
                                   Inr ())))))"

subsection \<open>The run and the route handler\<close>

text \<open>The body of the \<open>try\<close> block.\<close>

definition research :: "services \<Rightarrow> string \<Rightarrow> string \<Rightarrow> unit outcome" where
  "research sv topic depth =
     (case planning sv topic of
        (t1, Inl err) \<Rightarrow> (t1, Inl err)
      | (t1, Inr (plan, assistantMessageId, st0)) \<Rightarrow>
          (case search_loop sv depth plan assistantMessageId 0 (st0 \<lparr> currentStatus := Searching \<rparr>) of
             (t2, Inl err) \<Rightarrow> (t1 @ t2, Inl err)
           | (t2, Inr st1) \<Rightarrow>
               (case analysis_loop sv plan assistantMessageId 0 (st1 \<lparr> currentStatus := Analyzing \<rparr>) of
                  (t3, Inl err) \<Rightarrow> (t1 @ t2 @ t3, Inl err)
                | (t3, Inr st2) \<Rightarrow>
                    (case reporting sv assistantMessageId st2 of
                       (t4, r) \<Rightarrow> (t1 @ t2 @ t3 @ t4, r)))))"

text \<open>\<open>start\<close> of the stream: \<open>try\<close>, \<open>catch\<close> (one \<open>error\<close> frame), \<open>finally\<close> (close).\<close>

definition start :: "services \<Rightarrow> string \<Rightarrow> string \<Rightarrow> effect list" where
  "start sv topic depth =
     (case research sv topic depth of
        (t, Inl err) \<Rightarrow> t @ [Emit (Error_Frame err ''Unknown''), Close]
      | (t, Inr _) \<Rightarrow> t @ [Close])"

datatype response = Bad_Request | Event_Stream "effect list"

definition falsy :: "string option \<Rightarrow> bool" where
  "falsy x = (case x of None \<Rightarrow> True | Some t \<Rightarrow> t = [])"

definition POST :: "services \<Rightarrow> string option \<Rightarrow> string option \<Rightarrow> string option \<Rightarrow> response" where
  "POST sv topic sessionId depth =
     (if falsy topic \<or> falsy sessionId then Bad_Request
      else Event_Stream (start sv (case topic of None \<Rightarrow> [] | Some t \<Rightarrow> t)
                           (case depth of None \<Rightarrow> ''basic'' | Some d \<Rightarrow> d)))"

subsection \<open>Reading a trace\<close>

fun frames_of :: "effect list \<Rightarrow> frame list" where
  "frames_of [] = []"
| "frames_of (Emit f # t) = f # frames_of t"
| "frames_of (_ # t) = frames_of t"

text \<open>The message row as the writes of a trace leave it, when every write that was issued
  reached the store.\<close>

definition apply_update :: "message_update \<Rightarrow> message_data \<Rightarrow> message_data" where
  "apply_update u row =
     row \<lparr> research_plan_links := Some (mu_plan_links u),
           research_status := Some (mu_status u),
           research_progress := Some (mu_progress u),
           content := (case mu_content u of None \<Rightarrow> content row | Some c \<Rightarrow> Some c),
           citation_sources := (case mu_citations u of None \<Rightarrow> citation_sources row
                                | Some cs \<Rightarrow> Some cs) \<rparr>"

fun persist :: "services \<Rightarrow> effect \<Rightarrow> message_data option \<Rightarrow> message_data option" where
  "persist sv (Db_Insert row) db = (case insert_reply sv of None \<Rightarrow> db | Some _ \<Rightarrow> Some row)"
| "persist sv (Db_Update mid u) db = map_option (apply_update u) db"
| "persist sv _ db = db"

definition persisted :: "services \<Rightarrow> effect list \<Rightarrow> message_data option" where
  "persisted sv t = fold (persist sv) t None"

section \<open>Reading runs\<close>

text \<open>What the \<open>i\<close>-th search returns, whether its iteration completes, and the frames the
  iteration enqueues; likewise for the analyses. None of them depends on the state of the run.\<close>

definition search_result :: "services \<Rightarrow> string \<Rightarrow> research_plan \<Rightarrow> nat \<Rightarrow> web_search" where
  "search_result sv depth plan i =
     executeWebSearch (tvly_search sv i) (s_query (searches plan ! i)) depth
       (s_priority (searches plan ! i))"

definition search_ok :: "services \<Rightarrow> string \<Rightarrow> research_plan \<Rightarrow> nat \<Rightarrow> bool" where
  "search_ok sv depth plan i \<longleftrightarrow>
     links_of (url_hostname sv) (ws_results (search_result sv depth plan i)) \<noteq> None"

definition search_start_frame :: "research_plan \<Rightarrow> nat \<Rightarrow> frame" where
  "search_start_frame plan i =
     Step_Start (i + 2) (''Web Search '' @ show_nat (i + 1))
       (''Searching: \"'' @ s_query (searches plan ! i) @ ''\"'') ''running''"

definition search_frames :: "services \<Rightarrow> string \<Rightarrow> research_plan \<Rightarrow> nat \<Rightarrow> frame list" where
  "search_frames sv depth plan i =
     [search_start_frame plan i,
      Step_Complete (i + 2) (''Web Search '' @ show_nat (i + 1))
        (''Found '' @ show_nat (length (ws_results (search_result sv depth plan i))) @ '' sources'')
        ''completed''
        (Some (Search_Data (s_query (searches plan ! i))
           (length (ws_results (search_result sv depth plan i)))
           (map (\<lambda>r. \<lparr> sr_title = w_title r, sr_url = w_url r \<rparr>)
              (take 4 (ws_results (search_result sv depth plan i)))))),
      Progress (js_round (of_nat (i + 2) / of_nat (5 + length (analyses plan)) * 70))]"

definition analysis_ok :: "services \<Rightarrow> nat \<Rightarrow> bool" where
  "analysis_ok sv i \<longleftrightarrow> \<not> isl (analyzeResults sv i)"

definition analysis_start_frame :: "research_plan \<Rightarrow> nat \<Rightarrow> frame" where
  "analysis_start_frame plan i =
     Step_Start (7 + i) (''Analysis '' @ show_nat (i + 1) @ '': '' @ a_type (analyses plan ! i))
       (a_description (analyses plan ! i)) ''running''"

definition analysis_frames :: "services \<Rightarrow> research_plan \<Rightarrow> nat \<Rightarrow> frame list" where
  "analysis_frames sv plan i =
     [analysis_start_frame plan i,
      Step_Complete (7 + i) (''Analysis '' @ show_nat (i + 1) @ '': '' @ a_type (analyses plan ! i))
        (''Analysis completed - '' @ show_nat (length (findings (projr (analyzeResults sv i))))
           @ '' key findings'')
        ''completed''
        (Some (Analysis_Data (a_type (analyses plan ! i))
           (length (findings (projr (analyzeResults sv i))))
           (Some (map f_insight (take 2 (findings (projr (analyzeResults sv i))))))
           (take 4 (key_sources (projr (analyzeResults sv i)))))),
      Progress (js_round (70 + of_nat (i + 1) / of_nat (length (analyses plan)) * 25))]"


definition analysis_entry_of :: "services \<Rightarrow> research_plan \<Rightarrow> nat \<Rightarrow> analysis_entry" where
  "analysis_entry_of sv plan i =
     \<lparr> ae_type = a_type (analyses plan ! i), ae_description = a_description (analyses plan ! i),
       ae_result = projr (analyzeResults sv i) \<rparr>"

definition all_sources :: "services \<Rightarrow> string \<Rightarrow> research_plan \<Rightarrow> key_source list" where
  "all_sources sv depth plan =
     collect_sources (map (search_result sv depth plan) [0..<length (searches plan)])
       (map (analysis_entry_of sv plan) [0..<length (analyses plan)])"

datatype mark =
  Started nat | Finished nat string | Planned | Prog int | Phase phase | Chunk | Reported
| Failed | Other

fun mark_of :: "frame \<Rightarrow> mark" where
  "mark_of (Step_Start s _ _ _) = Started s"
| "mark_of (Step_Complete s _ _ st _) = Finished s st"
| "mark_of (Research_Plan _ _) = Planned"
| "mark_of (Progress p) = Prog p"
| "mark_of (Status_Change ph) = Phase ph"
| "mark_of (Report_Chunk _) = Chunk"
| "mark_of (Report_Complete _ _ _) = Reported"
| "mark_of (Error_Frame _ _) = Failed"
| "mark_of (Unknown_Frame _) = Other"

definition planning_marks :: "mark list" where
  "planning_marks = [Started 1, Finished 1 ''completed'', Planned]"

definition search_marks :: "nat \<Rightarrow> mark list" where
  "search_marks i =
     [Started (i + 2), Finished (i + 2) ''completed'', Prog (js_round (of_nat (i + 2) / 10 * 70))]"

definition analysis_marks :: "nat \<Rightarrow> mark list" where
  "analysis_marks i =
     [Started (7 + i), Finished (7 + i) ''completed'',
      Prog (js_round (70 + of_nat (i + 1) / 5 * 25))]"

definition report_marks :: "nat \<Rightarrow> mark list" where
  "report_marks n = [Started 12, Finished 12 ''completed'', Prog 95] @ replicate n Chunk"

definition done_marks :: "mark list" where
  "done_marks = [Reported, Prog 100, Phase Complete]"

datatype cut =
  Cut_Plan | Cut_Search nat | Cut_Analysis nat | Cut_Report | Cut_Stream nat | Cut_Persist nat
| Done nat

fun shape :: "cut \<Rightarrow> mark list" where
  "shape Cut_Plan = [Started 1, Failed]"
| "shape (Cut_Search k) =
     planning_marks @ concat (map search_marks [0..<k]) @ [Started (k + 2), Failed]"
| "shape (Cut_Analysis k) =
     planning_marks @ concat (map search_marks [0..<5]) @ concat (map analysis_marks [0..<k])
       @ [Started (7 + k), Failed]"
| "shape Cut_Report =
     planning_marks @ concat (map search_marks [0..<5]) @ concat (map analysis_marks [0..<5])
       @ [Started 12, Failed]"
| "shape (Cut_Stream n) =
     planning_marks @ concat (map search_marks [0..<5]) @ concat (map analysis_marks [0..<5])
       @ report_marks n @ [Failed]"
| "shape (Cut_Persist n) =
     planning_marks @ concat (map search_marks [0..<5]) @ concat (map analysis_marks [0..<5])
       @ report_marks n @ done_marks @ [Failed]"
| "shape (Done n) =
     planning_marks @ concat (map search_marks [0..<5]) @ concat (map analysis_marks [0..<5])
       @ report_marks n @ done_marks"

definition cut_of :: "services \<Rightarrow> string \<Rightarrow> cut" where
  "cut_of sv depth =
     (case createResearchPlan sv of
        Inl _ \<Rightarrow> Cut_Plan
      | Inr plan \<Rightarrow>
          (let ks = length (takeWhile (search_ok sv depth plan) [0..<5]);
               ka = length (takeWhile (analysis_ok sv) [0..<5])
           in if ks < 5 then Cut_Search ks
              else if ka < 5 then Cut_Analysis ka
              else (case report_reply sv of
                      Inl _ \<Rightarrow> Cut_Report
                    | Inr (chunks, Some _) \<Rightarrow> Cut_Stream (length chunks)
                    | Inr (chunks, None) \<Rightarrow>
                        if insert_reply sv \<noteq> None \<and>
                           citations_of (url_hostname sv) (all_sources sv depth plan) = None
                        then Cut_Persist (length chunks)
                        else Done (length chunks))))"

definition report_frames :: "services \<Rightarrow> key_source list \<Rightarrow> frame list" where
  "report_frames sv allSources =
     Step_Start 12 ''Final Report Generation''
       ''Generating comprehensive report with citations...'' ''running'' #
     (case report_reply sv of
        Inl _ \<Rightarrow> []
      | Inr (chunks, failure) \<Rightarrow>
          [Step_Complete 12 ''Final Report Generation'' ''Report generated successfully''
             ''completed'' None,
           Progress 95] @
          map Report_Chunk chunks @
          (case failure of
             Some _ \<Rightarrow> []
           | None \<Rightarrow> [Report_Complete (concat chunks) (length allSources) (Some allSources),
                       Progress 100, Status_Change Complete]))"

definition planning_frames :: "research_plan \<Rightarrow> frame list" where
  "planning_frames plan =
     [Step_Start 1 ''Research Planning'' ''Creating comprehensive research plan...'' ''running'',
      Step_Complete 1 ''Research Planning'' ''Research plan created successfully''
        ''completed'' None,
      Research_Plan plan (5 + length (analyses plan))]"

definition searching_frames :: "services \<Rightarrow> string \<Rightarrow> research_plan \<Rightarrow> frame list" where
  "searching_frames sv depth plan =
     concat (map (search_frames sv depth plan)
               (takeWhile (search_ok sv depth plan) [0..<length (searches plan)])) @
     (if list_all (search_ok sv depth plan) [0..<length (searches plan)] then []
      else [search_start_frame plan
              (length (takeWhile (search_ok sv depth plan) [0..<length (searches plan)]))])"

definition analysing_frames :: "services \<Rightarrow> research_plan \<Rightarrow> frame list" where
  "analysing_frames sv plan =
     concat (map (analysis_frames sv plan)
               (takeWhile (analysis_ok sv) [0..<length (analyses plan)])) @
     (if list_all (analysis_ok sv) [0..<length (analyses plan)] then []
      else [analysis_start_frame plan
              (length (takeWhile (analysis_ok sv) [0..<length (analyses plan)]))])"

text \<open>Whether the report phase ends in an exception: \<open>streamText\<close> or the stream fails, or
  the final update of the row meets a source whose URL does not parse.\<close>

definition report_fails :: "services \<Rightarrow> key_source list \<Rightarrow> bool" where
  "report_fails sv allSources =
     (case report_reply sv of
        Inl _ \<Rightarrow> True
      | Inr (chunks, failure) \<Rightarrow>
          failure \<noteq> None \<or>
          (insert_reply sv \<noteq> None \<and> citations_of (url_hostname sv) allSources = None))"

section \<open>Example services\<close>

definition example_plan :: research_plan where
  "example_plan =
     \<lparr> searches = map (\<lambda>(p, q). \<lparr> s_priority = p, s_query = q, s_type = ''web'' \<rparr>)
                    [(1, ''qubits''), (2, ''noise''), (3, ''vendors''), (4, ''funding''),
                     (5, ''roadmap'')],
       analyses = map (\<lambda>(t, p). \<lparr> a_type = t, a_description = ''on '' @ t, a_priority = p \<rparr>)
                    [(''trend'', 1), (''impact'', 2), (''comparative'', 3), (''risk'', 4),
                     (''outlook'', 5)] \<rparr>"

text \<open>The URL parser of the examples. It accepts \<open>https://host\<close> followed by nothing or
  by a path, where the host consists of labels of lower-case letters separated by single
  dots, and yields that host, as \<open>new URL(u).hostname\<close> does on such strings. Every other
  string is refused; in particular a string without a scheme is, as \<open>new URL\<close> refuses it.\<close>

definition example_host :: "string \<Rightarrow> string option" where
  "example_host u =
     (let h = takeWhile (\<lambda>c. c \<noteq> CHR ''/'') (drop 8 u)
      in if take 8 u = ''https://'' \<and> h \<noteq> [] \<and>
            list_all (\<lambda>c. c \<in> set ''abcdefghijklmnopqrstuvwxyz.'') h \<and>
            take 1 h \<noteq> ''.'' \<and> take 1 (rev h) \<noteq> ''.'' \<and> \<not> sublist ''..'' h
         then Some h else None)"

text \<open>A run in which the provider throws at the third search (index 2) and everything
  else answers.\<close>

definition example_services :: services where
  "example_services =
     \<lparr> plan_reply = Inr example_plan,
       insert_reply = Some ''m1'',
       tvly_search = (\<lambda>i q opts.
          if i = 2 then Inl ''timeout''
          else Inr [\<lparr> t_title = q, t_url = ''https://a.org/'' @ q, t_content = ''text'' \<rparr>]),
       analysis_reply = (\<lambda>i. Inr
          \<lparr> findings = [\<lparr> f_insight = ''insight'', f_evidence = [], f_confidence = 1 / 2,
                          f_source_links = [] \<rparr>],
            implications = [], limitations = [],
            key_sources = [\<lparr> ks_title = ''Key'', ks_url = ''https://k.org/x'', ks_relevance = 1 / 2 \<rparr>] \<rparr>),
       report_reply = Inr ([''# Report'', '' body''], None),
       url_hostname = example_host \<rparr>"

text \<open>A provider that answers with exactly as many results as the request asks for, and
  the services of the example run with this provider at every search.\<close>

definition echo_provider :: search_provider where
  "echo_provider query opts =
     Inr (replicate (nat (maxResults opts))
            \<lparr> t_title = query, t_url = ''https://a.org/'' @ query,
              t_content = searchDepth opts \<rparr>)"

definition echo_services :: services where
  "echo_services = example_services \<lparr> tvly_search := (\<lambda>i. echo_provider) \<rparr>"

section \<open>Observations on frame sequences\<close>

text \<open>The values of the \<open>progress\<close> frames, in order.\<close>

fun progress_values :: "frame list \<Rightarrow> int list" where
  "progress_values [] = []"
| "progress_values (Progress p # fs) = p # progress_values fs"
| "progress_values (_ # fs) = progress_values fs"

text \<open>Whether a frame is a fragment of the report, the final \<open>report_complete\<close>, or the
  completion of step \<open>s\<close>.\<close>

fun is_chunk :: "frame \<Rightarrow> bool" where
  "is_chunk (Report_Chunk _) = True"
| "is_chunk _ = False"

fun is_report_complete :: "frame \<Rightarrow> bool" where
  "is_report_complete (Report_Complete _ _ _) = True"
| "is_report_complete _ = False"

fun completes :: "nat \<Rightarrow> frame \<Rightarrow> bool" where
  "completes s (Step_Complete s' _ _ st _) = (s' = s \<and> st = ''completed'')"
| "completes s _ = False"

text \<open>The same observations on marks.\<close>

fun prog_marks :: "mark list \<Rightarrow> int list" where
  "prog_marks [] = []"
| "prog_marks (Prog p # ms) = p # prog_marks ms"
| "prog_marks (_ # ms) = prog_marks ms"

fun view_step :: "mark \<Rightarrow> int \<Rightarrow> int" where
  "view_step (Prog q) p = min 100 (max 0 q)"
| "view_step Reported p = 100"
| "view_step _ p = p"

fun view_trace :: "int \<Rightarrow> mark list \<Rightarrow> int list" where
  "view_trace p [] = [p]"
| "view_trace p (m # ms) = p # view_trace (view_step m p) ms"

text \<open>The progress value announced after the step \<open>s\<close> (2 to 11) of a plan with five
  searches and five analyses.\<close>

definition step_progress :: "nat \<Rightarrow> int" where
  "step_progress s =
     (if s \<le> 6 then js_round (of_nat s / 10 * 70) else js_round (70 + of_nat (s - 6) / 5 * 25))"

text \<open>Every completion of a step from 2 to 11 is directly followed by its progress value.\<close>

fun paired :: "mark list \<Rightarrow> bool" where
  "paired [] = True"
| "paired (Finished s st # ms) =
     (if 2 \<le> s \<and> s \<le> 11
      then (case ms of Prog p # _ \<Rightarrow> p = step_progress s \<and> paired ms | _ \<Rightarrow> False)
      else paired ms)"
| "paired (_ # ms) = paired ms"

text \<open>Every fragment of the report (and the \<open>report_complete\<close> frame) comes after the
  completion of step 12; \<open>seen\<close> says that the completion has passed.\<close>

fun report_after_done :: "bool \<Rightarrow> mark list \<Rightarrow> bool" where
  "report_after_done seen [] = True"
| "report_after_done seen (m # ms) =
     (if m = Chunk \<or> m = Reported then seen \<and> report_after_done seen ms
      else report_after_done (seen \<or> m = Finished 12 ''completed'') ms)"

fun valid_cut :: "cut \<Rightarrow> bool" where
  "valid_cut (Cut_Search k) = (k < 5)"
| "valid_cut (Cut_Analysis k) = (k < 5)"
| "valid_cut _ = True"

definition pre_report :: "mark list" where
  "pre_report =
     [Started 1, Finished 1 ''completed'', Planned,
      Started 2, Finished 2 ''completed'', Prog 14,
      Started 3, Finished 3 ''completed'', Prog 21,
      Started 4, Finished 4 ''completed'', Prog 28,
      Started 5, Finished 5 ''completed'', Prog 35,
      Started 6, Finished 6 ''completed'', Prog 42,
      Started 7, Finished 7 ''completed'', Prog 75,
      Started 8, Finished 8 ''completed'', Prog 80,
      Started 9, Finished 9 ''completed'', Prog 85,
      Started 10, Finished 10 ''completed'', Prog 90,
      Started 11, Finished 11 ''completed'', Prog 95]"

text \<open>The shapes in closed form: a run that fails before the report is completed stops
  right after a \<open>step_start\<close>; the others differ in the number of fragments and the ending.\<close>

definition short_shape :: "nat \<Rightarrow> mark list" where
  "short_shape j = take (3 * j) pre_report @ [Started (j + 1), Failed]"

definition long_shape :: "nat \<Rightarrow> mark list \<Rightarrow> mark list" where
  "long_shape n ending =
     pre_report @ [Started 12, Finished 12 ''completed'', Prog 95] @ replicate n Chunk @ ending"

text \<open>The step a \<open>step_complete\<close> frame completes.\<close>

fun completed_step :: "frame \<Rightarrow> nat option" where
  "completed_step (Step_Complete s _ _ _ _) = Some s"
| "completed_step _ = None"

text \<open>A run in which the language model fails at the planning call.\<close>

definition down_services :: services where
  "down_services = example_services \<lparr> plan_reply := Inl ''model unavailable'' \<rparr>"

fun is_step_start :: "frame \<Rightarrow> bool" where
  "is_step_start (Step_Start _ _ _ _) = True"
| "is_step_start _ = False"

text \<open>The row of the example run as the planning step inserts it: the snapshot is there
  and holds no record yet.\<close>

definition planned_row :: message_data where
  "planned_row =
     \<lparr> research_plan_links = Some initial_links, research_plan = Some example_plan,
       research_status = Some Planning, research_progress = Some 10, content = Some [],
       citation_sources = None \<rparr>"

text \<open>A row without a snapshot.\<close>

definition bare_row :: message_data where
  "bare_row = planned_row \<lparr> research_plan_links := None \<rparr>"

text \<open>The invariant of the snapshot, and the snapshots a trace writes to the database.\<close>

definition links_consistent :: "plan_links \<Rightarrow> bool" where
  "links_consistent pld \<longleftrightarrow>
     total_links pld = sum_list (map (\<lambda>r. length (sl_links r)) (pl_searches pld))"

fun snapshots_of :: "effect list \<Rightarrow> plan_links list" where
  "snapshots_of [] = []"
| "snapshots_of (Db_Insert row # t) =
     (case research_plan_links row of None \<Rightarrow> [] | Some pld \<Rightarrow> [pld]) @ snapshots_of t"
| "snapshots_of (Db_Update mid u # t) = mu_plan_links u # snapshots_of t"
| "snapshots_of (_ # t) = snapshots_of t"

text \<open>The steps a frame sequence starts, and the steps it completes with their status.\<close>

fun started_steps :: "frame list \<Rightarrow> nat list" where
  "started_steps [] = []"
| "started_steps (Step_Start s _ _ _ # fs) = s # started_steps fs"
| "started_steps (_ # fs) = started_steps fs"

fun completed_steps :: "frame list \<Rightarrow> (nat \<times> string) list" where
  "completed_steps [] = []"
| "completed_steps (Step_Complete s _ _ st _ # fs) = (s, st) # completed_steps fs"
| "completed_steps (_ # fs) = completed_steps fs"

fun is_error :: "frame \<Rightarrow> bool" where
  "is_error (Error_Frame _ _) = True"
| "is_error _ = False"

fun started_marks :: "mark list \<Rightarrow> nat list" where
  "started_marks [] = []"
| "started_marks (Started s # ms) = s # started_marks ms"
| "started_marks (_ # ms) = started_marks ms"

fun completed_marks :: "mark list \<Rightarrow> (nat \<times> string) list" where
  "completed_marks [] = []"
| "completed_marks (Finished s st # ms) = (s, st) # completed_marks ms"
| "completed_marks (_ # ms) = completed_marks ms"

text \<open>A run in which every search is refused and the analyses name no source: it
  completes with an empty citation list.\<close>

definition quiet_services :: services where
  "quiet_services =
     example_services
       \<lparr> tvly_search := (\<lambda>i q opts. Inl ''Unauthorized: missing or invalid API key.''),
         analysis_reply := (\<lambda>i. Inr \<lparr> findings = [], implications = [],
                                      limitations = [''no sources''], key_sources = [] \<rparr>) \<rparr>"

section \<open>Properties\<close>

subsection \<open>The frames of the two loops\<close>

lemma frames_of_append [simp]: "frames_of (a @ b) = frames_of a @ frames_of b"
  by (induction a rule: frames_of.induct) simp_all

lemma frames_of_db_update [simp]: "frames_of (db_update mid u) = []"
  by (simp add: db_update_def split: option.splits)

lemma search_step_frames:
  "frames_of (fst (search_step sv depth plan mid i st)) =
     (if search_ok sv depth plan i then search_frames sv depth plan i
      else [search_start_frame plan i])"
  by (simp add: search_step_def search_ok_def search_result_def search_frames_def
      search_start_frame_def Let_def split: option.splits)

lemma search_step_result:
  "(\<exists>st1. snd (search_step sv depth plan mid i st) = Inr st1) \<longleftrightarrow> search_ok sv depth plan i"
  by (simp add: search_step_def search_ok_def search_result_def Let_def split: option.splits)

lemma search_loop_frames:
  "frames_of (fst (search_loop sv depth plan mid i st)) =
     concat (map (search_frames sv depth plan)
               (takeWhile (search_ok sv depth plan) [i..<length (searches plan)])) @
     (if list_all (search_ok sv depth plan) [i..<length (searches plan)] then []
      else [search_start_frame plan
              (i + length (takeWhile (search_ok sv depth plan) [i..<length (searches plan)]))])"
proof (induction sv depth plan mid i st rule: search_loop.induct)
  case (1 sv depth plan mid i st)
  show ?case
  proof (cases "i < length (searches plan)")
    case False
    then show ?thesis by (simp add: search_loop.simps)
  next
    case True
    then have upt: "[i..<length (searches plan)] = i # [Suc i..<length (searches plan)]"
      by (simp add: upt_conv_Cons)
    obtain t r where step: "search_step sv depth plan mid i st = (t, r)"
      by (cases "search_step sv depth plan mid i st")
    show ?thesis
    proof (cases r)
      case (Inl err)
      with step search_step_result [of sv depth plan mid i st]
      have nok: "\<not> search_ok sv depth plan i" by auto
      from step Inl True have "search_loop sv depth plan mid i st = (t, Inl err)"
        by (simp add: search_loop.simps)
      moreover from step search_step_frames [of sv depth plan mid i st] nok
      have "frames_of t = [search_start_frame plan i]" by simp
      ultimately show ?thesis using nok upt by simp
    next
      case (Inr st1)
      with step search_step_result [of sv depth plan mid i st]
      have ok: "search_ok sv depth plan i" by auto
      obtain t' r' where rest: "search_loop sv depth plan mid (i + 1) st1 = (t', r')"
        by (cases "search_loop sv depth plan mid (i + 1) st1")
      from step Inr True rest have whole: "search_loop sv depth plan mid i st = (t @ t', r')"
        by (simp add: search_loop.simps)
      from step search_step_frames [of sv depth plan mid i st] ok
      have ft: "frames_of t = search_frames sv depth plan i" by simp
      from "1.IH" [OF True step [symmetric] Inr] rest
      have "frames_of t' =
              concat (map (search_frames sv depth plan)
                 (takeWhile (search_ok sv depth plan) [i + 1..<length (searches plan)])) @
              (if list_all (search_ok sv depth plan) [i + 1..<length (searches plan)] then []
               else [search_start_frame plan
                 (i + 1 + length (takeWhile (search_ok sv depth plan) [i + 1..<length (searches plan)]))])"
        by simp
      with whole ft ok upt show ?thesis by simp
    qed
  qed
qed

lemma search_loop_result:
  "(\<exists>st1. snd (search_loop sv depth plan mid i st) = Inr st1) \<longleftrightarrow>
     list_all (search_ok sv depth plan) [i..<length (searches plan)]"
proof (induction sv depth plan mid i st rule: search_loop.induct)
  case (1 sv depth plan mid i st)
  show ?case
  proof (cases "i < length (searches plan)")
    case False
    then show ?thesis by (simp add: search_loop.simps)
  next
    case True
    then have upt: "[i..<length (searches plan)] = i # [Suc i..<length (searches plan)]"
      by (simp add: upt_conv_Cons)
    obtain t r where step: "search_step sv depth plan mid i st = (t, r)"
      by (cases "search_step sv depth plan mid i st")
    show ?thesis
    proof (cases r)
      case (Inl err)
      with step search_step_result [of sv depth plan mid i st]
      have nok: "\<not> search_ok sv depth plan i" by auto
      from step Inl True have "search_loop sv depth plan mid i st = (t, Inl err)"
        by (simp add: search_loop.simps)
      then show ?thesis using nok upt by simp
    next
      case (Inr st1)
      with step search_step_result [of sv depth plan mid i st]
      have ok: "search_ok sv depth plan i" by auto
      obtain t' r' where rest: "search_loop sv depth plan mid (i + 1) st1 = (t', r')"
        by (cases "search_loop sv depth plan mid (i + 1) st1")
      from step Inr True rest have whole: "search_loop sv depth plan mid i st = (t @ t', r')"
        by (simp add: search_loop.simps)
      from "1.IH" [OF True step [symmetric] Inr] rest whole ok upt show ?thesis by simp
    qed
  qed
qed

lemma analysis_step_frames:
  "frames_of (fst (analysis_step sv plan mid i st)) =
     (if analysis_ok sv i then analysis_frames sv plan i else [analysis_start_frame plan i])"
  by (simp add: analysis_step_def analysis_ok_def analysis_frames_def
      analysis_start_frame_def Let_def split: sum.splits)

lemma analysis_step_result:
  "(\<exists>st1. snd (analysis_step sv plan mid i st) = Inr st1) \<longleftrightarrow> analysis_ok sv i"
  by (simp add: analysis_step_def analysis_ok_def Let_def split: sum.splits)

lemma analysis_loop_frames:
  "frames_of (fst (analysis_loop sv plan mid i st)) =
     concat (map (analysis_frames sv plan)
               (takeWhile (analysis_ok sv) [i..<length (analyses plan)])) @
     (if list_all (analysis_ok sv) [i..<length (analyses plan)] then []
      else [analysis_start_frame plan
              (i + length (takeWhile (analysis_ok sv) [i..<length (analyses plan)]))])"
proof (induction sv plan mid i st rule: analysis_loop.induct)
  case (1 sv plan mid i st)
  show ?case
  proof (cases "i < length (analyses plan)")
    case False
    then show ?thesis by (simp add: analysis_loop.simps)
  next
    case True
    then have upt: "[i..<length (analyses plan)] = i # [Suc i..<length (analyses plan)]"
      by (simp add: upt_conv_Cons)
    obtain t r where step: "analysis_step sv plan mid i st = (t, r)"
      by (cases "analysis_step sv plan mid i st")
    show ?thesis
    proof (cases r)
      case (Inl err)
      with step analysis_step_result [of sv plan mid i st]
      have nok: "\<not> analysis_ok sv i" by auto
      from step Inl True have "analysis_loop sv plan mid i st = (t, Inl err)"
        by (simp add: analysis_loop.simps)
      moreover from step analysis_step_frames [of sv plan mid i st] nok
      have "frames_of t = [analysis_start_frame plan i]" by simp
      ultimately show ?thesis using nok upt by simp
    next
      case (Inr st1)
      with step analysis_step_result [of sv plan mid i st]
      have ok: "analysis_ok sv i" by auto
      obtain t' r' where rest: "analysis_loop sv plan mid (i + 1) st1 = (t', r')"
        by (cases "analysis_loop sv plan mid (i + 1) st1")
      from step Inr True rest have whole: "analysis_loop sv plan mid i st = (t @ t', r')"
        by (simp add: analysis_loop.simps)
      from step analysis_step_frames [of sv plan mid i st] ok
      have ft: "frames_of t = analysis_frames sv plan i" by simp
      from "1.IH" [OF True step [symmetric] Inr] rest
      have "frames_of t' =
              concat (map (analysis_frames sv plan)
                 (takeWhile (analysis_ok sv) [i + 1..<length (analyses plan)])) @
              (if list_all (analysis_ok sv) [i + 1..<length (analyses plan)] then []
               else [analysis_start_frame plan
                 (i + 1 + length (takeWhile (analysis_ok sv) [i + 1..<length (analyses plan)]))])"
        by simp
      with whole ft ok upt show ?thesis by simp
    qed
  qed
qed

lemma analysis_loop_result:
  "(\<exists>st1. snd (analysis_loop sv plan mid i st) = Inr st1) \<longleftrightarrow>
     list_all (analysis_ok sv) [i..<length (analyses plan)]"
proof (induction sv plan mid i st rule: analysis_loop.induct)
  case (1 sv plan mid i st)
  show ?case
  proof (cases "i < length (analyses plan)")
    case False
    then show ?thesis by (simp add: analysis_loop.simps)
  next
    case True
    then have upt: "[i..<length (analyses plan)] = i # [Suc i..<length (analyses plan)]"
      by (simp add: upt_conv_Cons)
    obtain t r where step: "analysis_step sv plan mid i st = (t, r)"
      by (cases "analysis_step sv plan mid i st")
    show ?thesis
    proof (cases r)
      case (Inl err)
      with step analysis_step_result [of sv plan mid i st]
      have nok: "\<not> analysis_ok sv i" by auto
      from step Inl True have "analysis_loop sv plan mid i st = (t, Inl err)"
        by (simp add: analysis_loop.simps)
      then show ?thesis using nok upt by simp
    next
      case (Inr st1)
      with step analysis_step_result [of sv plan mid i st]
      have ok: "analysis_ok sv i" by auto
      obtain t' r' where rest: "analysis_loop sv plan mid (i + 1) st1 = (t', r')"
        by (cases "analysis_loop sv plan mid (i + 1) st1")
      from step Inr True rest have whole: "analysis_loop sv plan mid i st = (t @ t', r')"
        by (simp add: analysis_loop.simps)
      from "1.IH" [OF True step [symmetric] Inr] rest whole ok upt show ?thesis by simp
    qed
  qed
qed


lemma search_step_state:
  "search_step sv depth plan mid i st = (t, Inr st1) \<Longrightarrow>
     searchResults st1 = searchResults st @ [search_result sv depth plan i] \<and>
     analysisResults st1 = analysisResults st"
  by (auto simp add: search_step_def search_result_def Let_def split: option.splits)

lemma search_loop_state:
  "search_loop sv depth plan mid i st = (t, Inr st') \<Longrightarrow>
     searchResults st' =
       searchResults st @ map (search_result sv depth plan) [i..<length (searches plan)] \<and>
     analysisResults st' = analysisResults st"
proof (induction sv depth plan mid i st arbitrary: t rule: search_loop.induct)
  case (1 sv depth plan mid i st)
  show ?case
  proof (cases "i < length (searches plan)")
    case False
    with "1.prems" show ?thesis by (simp add: search_loop.simps)
  next
    case True
    then have upt: "[i..<length (searches plan)] = i # [Suc i..<length (searches plan)]"
      by (simp add: upt_conv_Cons)
    obtain t1 r where step: "search_step sv depth plan mid i st = (t1, r)"
      by (cases "search_step sv depth plan mid i st")
    show ?thesis
    proof (cases r)
      case (Inl err)
      with step True "1.prems" show ?thesis by (simp add: search_loop.simps)
    next
      case (Inr st1)
      obtain t' r' where rest: "search_loop sv depth plan mid (i + 1) st1 = (t', r')"
        by (cases "search_loop sv depth plan mid (i + 1) st1")
      from step Inr True rest "1.prems" have r': "r' = Inr st'"
        by (simp add: search_loop.simps)
      from "1.IH" [OF True step [symmetric] Inr] rest r'
      have "searchResults st' =
              searchResults st1 @ map (search_result sv depth plan) [i + 1..<length (searches plan)] \<and>
            analysisResults st' = analysisResults st1"
        by simp
      with search_step_state [of sv depth plan mid i st t1 st1] step Inr upt
      show ?thesis by simp
    qed
  qed
qed

lemma analysis_step_state:
  "analysis_step sv plan mid i st = (t, Inr st1) \<Longrightarrow>
     analysisResults st1 = analysisResults st @ [analysis_entry_of sv plan i] \<and>
     searchResults st1 = searchResults st"
  by (auto simp add: analysis_step_def analysis_entry_of_def Let_def split: sum.splits)

lemma analysis_loop_state:
  "analysis_loop sv plan mid i st = (t, Inr st') \<Longrightarrow>
     analysisResults st' =
       analysisResults st @ map (analysis_entry_of sv plan) [i..<length (analyses plan)] \<and>
     searchResults st' = searchResults st"
proof (induction sv plan mid i st arbitrary: t rule: analysis_loop.induct)
  case (1 sv plan mid i st)
  show ?case
  proof (cases "i < length (analyses plan)")
    case False
    with "1.prems" show ?thesis by (simp add: analysis_loop.simps)
  next
    case True
    then have upt: "[i..<length (analyses plan)] = i # [Suc i..<length (analyses plan)]"
      by (simp add: upt_conv_Cons)
    obtain t1 r where step: "analysis_step sv plan mid i st = (t1, r)"
      by (cases "analysis_step sv plan mid i st")
    show ?thesis
    proof (cases r)
      case (Inl err)
      with step True "1.prems" show ?thesis by (simp add: analysis_loop.simps)
    next
      case (Inr st1)
      obtain t' r' where rest: "analysis_loop sv plan mid (i + 1) st1 = (t', r')"
        by (cases "analysis_loop sv plan mid (i + 1) st1")
      from step Inr True rest "1.prems" have r': "r' = Inr st'"
        by (simp add: analysis_loop.simps)
      from "1.IH" [OF True step [symmetric] Inr] rest r'
      have "analysisResults st' =
              analysisResults st1 @ map (analysis_entry_of sv plan) [i + 1..<length (analyses plan)] \<and>
            searchResults st' = searchResults st1"
        by simp
      with analysis_step_state [of sv plan mid i st t1 st1] step Inr upt
      show ?thesis by simp
    qed
  qed
qed

lemma frames_of_emits [simp]: "frames_of (map (\<lambda>c. Emit (f c)) cs) = map f cs"
  by (induction cs) simp_all

lemma reporting_frames:
  "frames_of (fst (reporting sv mid st)) =
     report_frames sv (collect_sources (searchResults st) (analysisResults st))"
  by (simp add: reporting_def report_frames_def Let_def split: sum.splits option.splits prod.splits)

lemma reporting_result:
  "isl (snd (reporting sv mid st)) \<longleftrightarrow>
     (case report_reply sv of
        Inl _ \<Rightarrow> True
      | Inr (chunks, failure) \<Rightarrow>
          failure \<noteq> None \<or>
          (mid \<noteq> None \<and>
           citations_of (url_hostname sv)
             (collect_sources (searchResults st) (analysisResults st)) = None))"
  by (simp add: reporting_def Let_def split: sum.splits option.splits prod.splits)


subsection \<open>The frames of a whole run\<close>

lemma planning_failure:
  "createResearchPlan sv = Inl err \<Longrightarrow>
     planning sv topic =
       ([Emit (Step_Start 1 ''Research Planning'' ''Creating comprehensive research plan...''
                 ''running''),
         Request (Plan_Call topic)], Inl err)"
  by (simp add: planning_def)

lemma planning_success:
  "createResearchPlan sv = Inr plan \<Longrightarrow>
     \<exists>t st0. planning sv topic = (t, Inr (plan, insert_reply sv, st0)) \<and>
            frames_of t = planning_frames plan \<and>
            searchResults st0 = [] \<and> analysisResults st0 = [] \<and>
            planLinksData st0 = initial_links \<and>
            t = [Emit (Step_Start 1 ''Research Planning''
                         ''Creating comprehensive research plan...'' ''running''),
                 Request (Plan_Call topic),
                 Emit (Step_Complete 1 ''Research Planning''
                         ''Research plan created successfully'' ''completed'' None),
                 Emit (Research_Plan plan (5 + length (analyses plan))),
                 Db_Insert \<lparr> research_plan_links = Some initial_links,
                             research_plan = Some plan,
                             research_status = Some Planning, research_progress = Some 10,
                             content = Some [], citation_sources = None \<rparr>]"
  by (simp add: planning_def planning_frames_def)

lemma research_frames:
  assumes plan: "createResearchPlan sv = Inr plan"
  shows "frames_of (fst (research sv topic depth)) =
           planning_frames plan @ searching_frames sv depth plan @
           (if list_all (search_ok sv depth plan) [0..<length (searches plan)]
            then analysing_frames sv plan @
                 (if list_all (analysis_ok sv) [0..<length (analyses plan)]
                  then report_frames sv (all_sources sv depth plan) else [])
            else [])"
    and "isl (snd (research sv topic depth)) \<longleftrightarrow>
           \<not> (list_all (search_ok sv depth plan) [0..<length (searches plan)] \<and>
              list_all (analysis_ok sv) [0..<length (analyses plan)] \<and>
              \<not> report_fails sv (all_sources sv depth plan))"
proof -
  from planning_success [OF plan, of topic] obtain t1 st0 where
    p: "planning sv topic = (t1, Inr (plan, insert_reply sv, st0))" and
    f1: "frames_of t1 = planning_frames plan" and
    s0: "searchResults st0 = []" "analysisResults st0 = []"
    by blast
  let ?mid = "insert_reply sv"
  let ?st0 = "st0 \<lparr> currentStatus := Searching \<rparr>"
  obtain t2 r2 where l2: "search_loop sv depth plan ?mid 0 ?st0 = (t2, r2)"
    by (cases "search_loop sv depth plan ?mid 0 ?st0")
  from search_loop_frames [of sv depth plan ?mid 0 ?st0] l2
  have f2: "frames_of t2 = searching_frames sv depth plan"
    by (simp add: searching_frames_def)
  from search_loop_result [of sv depth plan ?mid 0 ?st0] l2
  have r2: "(\<exists>st1. r2 = Inr st1) \<longleftrightarrow> list_all (search_ok sv depth plan) [0..<length (searches plan)]"
    by simp
  have goal: "frames_of (fst (research sv topic depth)) =
           planning_frames plan @ searching_frames sv depth plan @
           (if list_all (search_ok sv depth plan) [0..<length (searches plan)]
            then analysing_frames sv plan @
                 (if list_all (analysis_ok sv) [0..<length (analyses plan)]
                  then report_frames sv (all_sources sv depth plan) else [])
            else []) \<and>
        (isl (snd (research sv topic depth)) \<longleftrightarrow>
           \<not> (list_all (search_ok sv depth plan) [0..<length (searches plan)] \<and>
              list_all (analysis_ok sv) [0..<length (analyses plan)] \<and>
              \<not> report_fails sv (all_sources sv depth plan)))"
  proof (cases r2)
    case (Inl err)
    with r2 have "\<not> list_all (search_ok sv depth plan) [0..<length (searches plan)]" by auto
    moreover from p l2 Inl have "research sv topic depth = (t1 @ t2, Inl err)"
      by (simp add: research_def)
    ultimately show ?thesis using f1 f2 by simp
  next
    case (Inr st1)
    with r2 have sok: "list_all (search_ok sv depth plan) [0..<length (searches plan)]" by auto
    from search_loop_state [of sv depth plan ?mid 0 ?st0 t2 st1] l2 Inr s0
    have s1: "searchResults st1 = map (search_result sv depth plan) [0..<length (searches plan)]"
      "analysisResults st1 = []"
      by simp_all
    let ?st1 = "st1 \<lparr> currentStatus := Analyzing \<rparr>"
    obtain t3 r3 where l3: "analysis_loop sv plan ?mid 0 ?st1 = (t3, r3)"
      by (cases "analysis_loop sv plan ?mid 0 ?st1")
    from analysis_loop_frames [of sv plan ?mid 0 ?st1] l3
    have f3: "frames_of t3 = analysing_frames sv plan"
      by (simp add: analysing_frames_def)
    from analysis_loop_result [of sv plan ?mid 0 ?st1] l3
    have r3: "(\<exists>st2. r3 = Inr st2) \<longleftrightarrow> list_all (analysis_ok sv) [0..<length (analyses plan)]"
      by simp
    show ?thesis
    proof (cases r3)
      case (Inl err)
      with r3 have "\<not> list_all (analysis_ok sv) [0..<length (analyses plan)]" by auto
      moreover from p l2 l3 Inl \<open>r2 = Inr st1\<close>
      have "research sv topic depth = (t1 @ t2 @ t3, Inl err)"
        by (simp add: research_def)
      ultimately show ?thesis using f1 f2 f3 sok by simp
    next
      case (Inr st2)
      with r3 have aok: "list_all (analysis_ok sv) [0..<length (analyses plan)]" by auto
      from analysis_loop_state [of sv plan ?mid 0 ?st1 t3 st2] l3 Inr s1
      have s2: "collect_sources (searchResults st2) (analysisResults st2) =
                  all_sources sv depth plan"
        by (simp add: all_sources_def)
      obtain t4 r4 where l4: "reporting sv ?mid st2 = (t4, r4)"
        by (cases "reporting sv ?mid st2")
      from p l2 l3 l4 Inr \<open>r2 = Inr st1\<close>
      have whole: "research sv topic depth = (t1 @ t2 @ t3 @ t4, r4)"
        by (simp add: research_def)
      from reporting_frames [of sv ?mid st2] l4 s2
      have f4: "frames_of t4 = report_frames sv (all_sources sv depth plan)" by simp
      from reporting_result [of sv ?mid st2, unfolded s2] l4
      have r4: "isl r4 \<longleftrightarrow> report_fails sv (all_sources sv depth plan)"
        by (simp add: report_fails_def)
      from whole f1 f2 f3 f4 r4 sok aok show ?thesis by simp
    qed
  qed
  from goal show "frames_of (fst (research sv topic depth)) =
           planning_frames plan @ searching_frames sv depth plan @
           (if list_all (search_ok sv depth plan) [0..<length (searches plan)]
            then analysing_frames sv plan @
                 (if list_all (analysis_ok sv) [0..<length (analyses plan)]
                  then report_frames sv (all_sources sv depth plan) else [])
            else [])" by blast
  from goal show "isl (snd (research sv topic depth)) \<longleftrightarrow>
           \<not> (list_all (search_ok sv depth plan) [0..<length (searches plan)] \<and>
              list_all (analysis_ok sv) [0..<length (analyses plan)] \<and>
              \<not> report_fails sv (all_sources sv depth plan))" by blast
qed


subsection \<open>The shape of a run\<close>

lemma createResearchPlan_schema:
  "createResearchPlan sv = Inr plan \<Longrightarrow> length (searches plan) = 5 \<and> length (analyses plan) = 5"
  by (auto simp add: createResearchPlan_def ResearchPlanSchema_def split: sum.splits if_splits)

lemma takeWhile_upt:
  "takeWhile P [i..<n] = [i..<i + length (takeWhile P [i..<n])]"
proof (cases "i \<le> n")
  case True
  have "length (takeWhile P [i..<n]) \<le> n - i"
    using length_takeWhile_le [of P "[i..<n]"] by simp
  with True have le: "i + length (takeWhile P [i..<n]) \<le> n" by simp
  have "takeWhile P [i..<n] = take (length (takeWhile P [i..<n])) [i..<n]"
    by (rule takeWhile_eq_take)
  also have "\<dots> = [i..<i + length (takeWhile P [i..<n])]"
    using le by (rule take_upt)
  finally show ?thesis .
next
  case False
  then show ?thesis by simp
qed

lemma list_all_takeWhile:
  "list_all P xs \<longleftrightarrow> length (takeWhile P xs) = length xs"
  by (induction xs) auto

lemma list_all_upt_takeWhile:
  "list_all P [i..<n] \<longleftrightarrow> length (takeWhile P [i..<n]) = n - i"
  using list_all_takeWhile [of P "[i..<n]"] by simp

lemma map_mark_concat:
  "map mark_of (concat (map f xs)) = concat (map (\<lambda>x. map mark_of (f x)) xs)"
  by (induction xs) simp_all

lemma search_frames_marks:
  "length (analyses plan) = 5 \<Longrightarrow> map mark_of (search_frames sv depth plan i) = search_marks i"
  by (simp add: search_frames_def search_start_frame_def search_marks_def)

lemma analysis_frames_marks:
  "length (analyses plan) = 5 \<Longrightarrow> map mark_of (analysis_frames sv plan i) = analysis_marks i"
  by (simp add: analysis_frames_def analysis_start_frame_def analysis_marks_def)

lemma searching_marks:
  assumes "length (searches plan) = 5" "length (analyses plan) = 5"
  shows "map mark_of (searching_frames sv depth plan) =
           concat (map search_marks [0..<length (takeWhile (search_ok sv depth plan) [0..<5])]) @
           (if length (takeWhile (search_ok sv depth plan) [0..<5]) = 5 then []
            else [Started (length (takeWhile (search_ok sv depth plan) [0..<5]) + 2)])"
proof -
  have tw: "takeWhile (search_ok sv depth plan) [0..<5] =
              [0..<length (takeWhile (search_ok sv depth plan) [0..<5])]"
    using takeWhile_upt [of "search_ok sv depth plan" 0 5] by simp
  have la: "list_all (search_ok sv depth plan) [0..<5] \<longleftrightarrow>
              length (takeWhile (search_ok sv depth plan) [0..<5]) = 5"
    using list_all_upt_takeWhile [of "search_ok sv depth plan" 0 5] by simp
  have "map mark_of (concat (map (search_frames sv depth plan)
          (takeWhile (search_ok sv depth plan) [0..<5]))) =
        concat (map search_marks (takeWhile (search_ok sv depth plan) [0..<5]))"
    using assms by (simp add: map_mark_concat search_frames_marks)
  then show ?thesis
    using assms la tw
    by (simp add: searching_frames_def search_start_frame_def)
qed

lemma analysing_marks:
  assumes "length (analyses plan) = 5"
  shows "map mark_of (analysing_frames sv plan) =
           concat (map analysis_marks [0..<length (takeWhile (analysis_ok sv) [0..<5])]) @
           (if length (takeWhile (analysis_ok sv) [0..<5]) = 5 then []
            else [Started (7 + length (takeWhile (analysis_ok sv) [0..<5]))])"
proof -
  have tw: "takeWhile (analysis_ok sv) [0..<5] =
              [0..<length (takeWhile (analysis_ok sv) [0..<5])]"
    using takeWhile_upt [of "analysis_ok sv" 0 5] by simp
  have la: "list_all (analysis_ok sv) [0..<5] \<longleftrightarrow>
              length (takeWhile (analysis_ok sv) [0..<5]) = 5"
    using list_all_upt_takeWhile [of "analysis_ok sv" 0 5] by simp
  have "map mark_of (concat (map (analysis_frames sv plan)
          (takeWhile (analysis_ok sv) [0..<5]))) =
        concat (map analysis_marks (takeWhile (analysis_ok sv) [0..<5]))"
    using assms by (simp add: map_mark_concat analysis_frames_marks)
  then show ?thesis
    using assms la tw
    by (simp add: analysing_frames_def analysis_start_frame_def)
qed

lemma report_frames_marks:
  "map mark_of (report_frames sv allSources) =
     (case report_reply sv of
        Inl _ \<Rightarrow> [Started 12]
      | Inr (chunks, failure) \<Rightarrow>
          report_marks (length chunks) @ (if failure = None then done_marks else []))"
  by (simp add: report_frames_def report_marks_def done_marks_def o_def map_replicate_const
      split: sum.splits prod.splits option.splits)

lemma start_frames:
  "frames_of (start sv topic depth) =
     frames_of (fst (research sv topic depth)) @
     (if isl (snd (research sv topic depth))
      then [Error_Frame (projl (snd (research sv topic depth))) ''Unknown''] else [])"
  by (cases "research sv topic depth") (auto simp add: start_def split: sum.splits)


lemma takeWhile_upt_length: "length (takeWhile P [i..<n]) \<le> n - i"
  using length_takeWhile_le [of P "[i..<n]"] by simp

lemma run_marks: "map mark_of (frames_of (start sv topic depth)) = shape (cut_of sv depth)"
proof (cases "createResearchPlan sv")
  case (Inl err)
  from planning_failure [OF Inl, of topic] have "research sv topic depth =
      ([Emit (Step_Start 1 ''Research Planning'' ''Creating comprehensive research plan...''
                 ''running''),
        Request (Plan_Call topic)], Inl err)"
    by (simp add: research_def)
  then show ?thesis using Inl by (simp add: start_def cut_of_def)
next
  case (Inr plan)
  from createResearchPlan_schema [OF Inr]
  have len: "length (searches plan) = 5" "length (analyses plan) = 5" by simp_all
  let ?ks = "length (takeWhile (search_ok sv depth plan) [0..<5])"
  let ?ka = "length (takeWhile (analysis_ok sv) [0..<5])"
  have ks: "?ks \<le> 5" using takeWhile_upt_length [of "search_ok sv depth plan" 0 5] by simp
  have ka: "?ka \<le> 5" using takeWhile_upt_length [of "analysis_ok sv" 0 5] by simp
  have las: "list_all (search_ok sv depth plan) [0..<5] \<longleftrightarrow> ?ks = 5"
    using list_all_upt_takeWhile [of "search_ok sv depth plan" 0 5] by simp
  have laa: "list_all (analysis_ok sv) [0..<5] \<longleftrightarrow> ?ka = 5"
    using list_all_upt_takeWhile [of "analysis_ok sv" 0 5] by simp
  note fr = research_frames(1) [OF Inr, of topic depth, unfolded len las laa]
  note fl = research_frames(2) [OF Inr, of topic depth, unfolded len las laa]
  note sm = searching_marks [OF len, of sv depth]
  note am = analysing_marks [OF len(2), of sv]
  have pm: "map mark_of (planning_frames plan) = planning_marks"
    by (simp add: planning_frames_def planning_marks_def)
  show ?thesis
  proof (cases "?ks = 5")
    case False
    with ks have lt: "?ks < 5" by simp
    from False fr fl have "map mark_of (frames_of (start sv topic depth)) =
        planning_marks @ concat (map search_marks [0..<?ks]) @ [Started (?ks + 2), Failed]"
      by (simp add: start_frames pm sm)
    then show ?thesis using Inr lt by (simp add: cut_of_def Let_def)
  next
    case s5: True
    show ?thesis
    proof (cases "?ka = 5")
      case False
      with ka have lt: "?ka < 5" by simp
      from False s5 fr fl have "map mark_of (frames_of (start sv topic depth)) =
          planning_marks @ concat (map search_marks [0..<5]) @
          concat (map analysis_marks [0..<?ka]) @ [Started (7 + ?ka), Failed]"
        by (simp add: start_frames pm sm am)
      then show ?thesis using Inr lt s5 by (simp add: cut_of_def Let_def)
    next
      case a5: True
      from a5 s5 fr fl have "map mark_of (frames_of (start sv topic depth)) =
          planning_marks @ concat (map search_marks [0..<5]) @
          concat (map analysis_marks [0..<5]) @
          map mark_of (report_frames sv (all_sources sv depth plan)) @
          (if report_fails sv (all_sources sv depth plan) then [Failed] else [])"
        by (simp add: start_frames pm sm am)
      then show ?thesis using Inr s5 a5
        by (simp add: cut_of_def Let_def report_frames_marks report_fails_def
            split: sum.splits prod.splits option.splits)
    qed
  qed
qed


subsection \<open>Checks on the shapes\<close>

lemma floor_rat_numeral [simp]: "\<lfloor>(numeral a :: rat) / numeral b\<rfloor> = numeral a div numeral b"
  using floor_divide_of_int_eq [of "numeral a" "numeral b", where ?'a = rat] by simp

lemma valid_cut_of: "valid_cut (cut_of sv depth)"
proof -
  have "length (takeWhile P [0..<5]) < 5 \<or> length (takeWhile P [0..<5]) = 5" for P :: "nat \<Rightarrow> bool"
    using takeWhile_upt_length [of P 0 5] by auto
  then show ?thesis
    by (auto simp add: cut_of_def Let_def split: sum.splits prod.splits option.splits)
qed

lemma below_five: "k < 5 \<Longrightarrow> k = 0 \<or> k = 1 \<or> k = 2 \<or> k = 3 \<or> k = (4::nat)"
  by arith

lemma search_marks_all:
  "concat (map search_marks [0..<5]) =
     [Started 2, Finished 2 ''completed'', Prog 14,
      Started 3, Finished 3 ''completed'', Prog 21,
      Started 4, Finished 4 ''completed'', Prog 28,
      Started 5, Finished 5 ''completed'', Prog 35,
      Started 6, Finished 6 ''completed'', Prog 42]"
  by (simp add: search_marks_def js_round_def upt_rec)

lemma analysis_marks_all:
  "concat (map analysis_marks [0..<5]) =
     [Started 7, Finished 7 ''completed'', Prog 75,
      Started 8, Finished 8 ''completed'', Prog 80,
      Started 9, Finished 9 ''completed'', Prog 85,
      Started 10, Finished 10 ''completed'', Prog 90,
      Started 11, Finished 11 ''completed'', Prog 95]"
  by (simp add: analysis_marks_def js_round_def upt_rec)

lemma pre_report_eq:
  "planning_marks @ concat (map search_marks [0..<5]) @ concat (map analysis_marks [0..<5]) @ ms
     = pre_report @ ms"
  by (simp add: search_marks_all analysis_marks_all planning_marks_def pre_report_def)

lemma step_progress_values:
  "map step_progress [2, 3, 4, 5, 6, 7, 8, 9, 10, 11] = [14, 21, 28, 35, 42, 75, 80, 85, 90, 95]"
  by (simp add: step_progress_def js_round_def)


lemma shape_forms:
  assumes "valid_cut c"
  shows "(\<exists>j<12. shape c = short_shape j) \<or>
         (\<exists>n. shape c = long_shape n [Failed] \<or> shape c = long_shape n (done_marks @ [Failed])
               \<or> shape c = long_shape n done_marks)"
proof (cases c)
  case Cut_Plan
  have "(0::nat) < 12 \<and> shape c = short_shape 0" using Cut_Plan by (simp add: short_shape_def)
  then show ?thesis by blast
next
  case (Cut_Search k)
  with assms have "k < 5" by simp
  then have "shape c = short_shape (k + 1)"
    using Cut_Search below_five [of k]
    by (auto simp add: short_shape_def pre_report_def planning_marks_def search_marks_def
        js_round_def upt_rec)
  moreover have "k + 1 < 12" using \<open>k < 5\<close> by simp
  ultimately show ?thesis by blast
next
  case (Cut_Analysis k)
  with assms have "k < 5" by simp
  have sh: "shape c = planning_marks @
      [Started 2, Finished 2 ''completed'', Prog 14,
       Started 3, Finished 3 ''completed'', Prog 21,
       Started 4, Finished 4 ''completed'', Prog 28,
       Started 5, Finished 5 ''completed'', Prog 35,
       Started 6, Finished 6 ''completed'', Prog 42] @
      concat (map analysis_marks [0..<k]) @ [Started (7 + k), Failed]"
    using Cut_Analysis by (simp add: search_marks_all)
  from \<open>k < 5\<close> have "shape c = short_shape (k + 6)"
    using below_five [of k]
    by (auto simp add: sh short_shape_def pre_report_def planning_marks_def
        analysis_marks_def js_round_def upt_rec)
  moreover have "k + 6 < 12" using \<open>k < 5\<close> by simp
  ultimately show ?thesis by blast
next
  case Cut_Report
  have "(11::nat) < 12 \<and> shape c = short_shape 11"
    using Cut_Report pre_report_eq [of "[Started 12, Failed]"]
    by (simp add: short_shape_def pre_report_def)
  then show ?thesis by blast
next
  case (Cut_Stream n)
  have "shape c = long_shape n [Failed]"
    using Cut_Stream pre_report_eq [of "report_marks n @ [Failed]"]
    by (simp add: long_shape_def report_marks_def)
  then show ?thesis by blast
next
  case (Cut_Persist n)
  have "shape c = long_shape n (done_marks @ [Failed])"
    using Cut_Persist pre_report_eq [of "report_marks n @ done_marks @ [Failed]"]
    by (simp add: long_shape_def report_marks_def)
  then show ?thesis by blast
next
  case (Done n)
  have "shape c = long_shape n done_marks"
    using Done pre_report_eq [of "report_marks n @ done_marks"]
    by (simp add: long_shape_def report_marks_def)
  then show ?thesis by blast
qed

lemma below_twelve:
  "j < 12 \<Longrightarrow> j = 0 \<or> j = 1 \<or> j = 2 \<or> j = 3 \<or> j = 4 \<or> j = 5 \<or> j = 6 \<or> j = 7 \<or> j = 8
     \<or> j = 9 \<or> j = 10 \<or> j = (11::nat)"
  by arith

lemma prog_marks_chunks [simp]: "prog_marks (replicate n Chunk @ ms) = prog_marks ms"
  by (induction n) simp_all

lemma view_trace_chunks [simp]:
  "view_trace p (replicate n Chunk @ ms) = replicate n p @ view_trace p ms"
  by (induction n) simp_all

lemma paired_chunks [simp]: "paired (replicate n Chunk @ ms) = paired ms"
  by (induction n) simp_all

lemma report_after_done_chunks [simp]:
  "report_after_done True (replicate n Chunk @ ms) = report_after_done True ms"
  by (induction n) simp_all

lemma short_shapes_checked:
  assumes "j < 12"
  shows "sorted (prog_marks (short_shape j))"
    and "sorted (view_trace 0 (short_shape j))"
    and "paired (short_shape j)"
    and "report_after_done False (short_shape j)"
  using below_twelve [OF assms]
  by (auto simp add: short_shape_def pre_report_def step_progress_def js_round_def)

lemma long_shapes_checked:
  assumes "ending = [Failed] \<or> ending = done_marks @ [Failed] \<or> ending = done_marks"
  shows "sorted (prog_marks (long_shape n ending))"
    and "sorted (view_trace 0 (long_shape n ending))"
    and "paired (long_shape n ending)"
    and "report_after_done False (long_shape n ending)"
  using assms
  by (auto simp add: long_shape_def pre_report_def done_marks_def step_progress_def js_round_def
      sorted_append)

lemma shapes_checked:
  assumes "valid_cut c"
  shows "sorted (prog_marks (shape c))"
    and "sorted (view_trace 0 (shape c))"
    and "paired (shape c)"
    and "report_after_done False (shape c)"
  using shape_forms [OF assms] short_shapes_checked long_shapes_checked
  by metis+


subsection \<open>From marks back to frames\<close>

lemma progress_values_marks: "progress_values fs = prog_marks (map mark_of fs)"
  by (induction fs rule: progress_values.induct) simp_all

lemma view_step_handle: "progress (handleServerEvent f s) = view_step (mark_of f) (progress s)"
  by (cases f) (simp_all add: addUpdate_def updateProgress_def Let_def)

lemma view_trace_nth:
  "k \<le> length fs \<Longrightarrow>
     view_trace (progress s) (map mark_of fs) ! k = progress (handle_all (take k fs) s)"
proof (induction fs arbitrary: s k)
  case Nil
  then show ?case by simp
next
  case (Cons f fs)
  show ?case
  proof (cases k)
    case 0
    then show ?thesis by simp
  next
    case (Suc k')
    with Cons.prems have "k' \<le> length fs" by simp
    from Cons.IH [OF this, of "handleServerEvent f s"] Suc show ?thesis
      by (simp add: view_step_handle)
  qed
qed

lemma view_trace_length: "length (view_trace p ms) = Suc (length ms)"
  by (induction ms arbitrary: p) simp_all

lemma mark_finished: "completed_step f = Some s \<longleftrightarrow> (\<exists>st. mark_of f = Finished s st)"
  by (cases f) auto

lemma mark_completes: "completes s f \<longleftrightarrow> mark_of f = Finished s ''completed''"
  by (cases f) auto

lemma mark_prog: "mark_of f = Prog p \<longleftrightarrow> f = Progress p"
  by (cases f) auto

lemma mark_chunk: "is_chunk f \<longleftrightarrow> mark_of f = Chunk"
  by (cases f) auto

lemma mark_reported: "is_report_complete f \<longleftrightarrow> mark_of f = Reported"
  by (cases f) auto

lemma paired_tail: "paired (m # ms) \<Longrightarrow> paired ms"
  by (cases m) (auto split: if_splits list.splits mark.splits)

lemma paired_nth:
  "paired ms \<Longrightarrow> i < length ms \<Longrightarrow> ms ! i = Finished s st \<Longrightarrow> 2 \<le> s \<Longrightarrow> s \<le> 11 \<Longrightarrow>
     Suc i < length ms \<and> ms ! Suc i = Prog (step_progress s)"
proof (induction ms arbitrary: i)
  case Nil
  then show ?case by simp
next
  case (Cons m ms)
  show ?case
  proof (cases i)
    case 0
    with Cons.prems show ?thesis by (auto split: list.splits mark.splits)
  next
    case (Suc i')
    from Cons.prems(1) have "paired ms" by (rule paired_tail)
    from Cons.IH [OF this, of i'] Cons.prems Suc show ?thesis by simp
  qed
qed

lemma report_after_done_nth:
  "report_after_done seen ms \<Longrightarrow> i < length ms \<Longrightarrow> ms ! i = Chunk \<or> ms ! i = Reported \<Longrightarrow>
     seen \<or> (\<exists>j<i. ms ! j = Finished 12 ''completed'')"
proof (induction ms arbitrary: seen i)
  case Nil
  then show ?case by simp
next
  case (Cons m ms)
  show ?case
  proof (cases i)
    case 0
    with Cons.prems show ?thesis by (auto split: if_splits)
  next
    case (Suc i')
    show ?thesis
    proof (cases "m = Chunk \<or> m = Reported")
      case True
      with Cons.prems show ?thesis by simp
    next
      case False
      with Cons.prems Suc
      have "report_after_done (seen \<or> m = Finished 12 ''completed'') ms" "i' < length ms"
        "ms ! i' = Chunk \<or> ms ! i' = Reported"
        by simp_all
      from Cons.IH [OF this]
      have "seen \<or> m = Finished 12 ''completed'' \<or> (\<exists>j<i'. ms ! j = Finished 12 ''completed'')"
        by blast
      then show ?thesis
      proof (elim disjE)
        assume seen then show ?thesis by simp
      next
        assume "m = Finished 12 ''completed''"
        then have "(m # ms) ! 0 = Finished 12 ''completed''" by simp
        then show ?thesis using Suc by blast
      next
        assume "\<exists>j<i'. ms ! j = Finished 12 ''completed''"
        then obtain j where "j < i'" "ms ! j = Finished 12 ''completed''" by blast
        then have "Suc j < i" "(m # ms) ! Suc j = Finished 12 ''completed''" using Suc by simp_all
        then show ?thesis by blast
      qed
    qed
  qed
qed


subsection \<open>Successful runs and the example run\<close>

lemma research_succeeds:
  "\<not> isl (snd (research sv topic depth)) \<longleftrightarrow> (\<exists>n. cut_of sv depth = Done n)"
proof (cases "createResearchPlan sv")
  case (Inl err)
  from planning_failure [OF Inl, of topic] have "isl (snd (research sv topic depth))"
    by (simp add: research_def)
  then show ?thesis using Inl by (simp add: cut_of_def)
next
  case (Inr plan)
  from createResearchPlan_schema [OF Inr]
  have len: "length (searches plan) = 5" "length (analyses plan) = 5" by simp_all
  let ?ks = "length (takeWhile (search_ok sv depth plan) [0..<5])"
  let ?ka = "length (takeWhile (analysis_ok sv) [0..<5])"
  have ks: "?ks \<le> 5" using takeWhile_upt_length [of "search_ok sv depth plan" 0 5] by simp
  have ka: "?ka \<le> 5" using takeWhile_upt_length [of "analysis_ok sv" 0 5] by simp
  have las: "list_all (search_ok sv depth plan) [0..<5] \<longleftrightarrow> ?ks = 5"
    using list_all_upt_takeWhile [of "search_ok sv depth plan" 0 5] by simp
  have laa: "list_all (analysis_ok sv) [0..<5] \<longleftrightarrow> ?ka = 5"
    using list_all_upt_takeWhile [of "analysis_ok sv" 0 5] by simp
  note fl = research_frames(2) [OF Inr, of topic depth, unfolded len las laa]
  show ?thesis using Inr ks ka
    by (auto simp add: fl cut_of_def Let_def report_fails_def
        split: sum.splits prod.splits option.splits)
qed

lemma successful_marks:
  "\<not> isl (snd (research sv topic depth)) \<Longrightarrow>
     \<exists>n. map mark_of (frames_of (start sv topic depth)) = long_shape n done_marks"
proof -
  assume "\<not> isl (snd (research sv topic depth))"
  then obtain n where "cut_of sv depth = Done n" using research_succeeds by blast
  then have "map mark_of (frames_of (start sv topic depth)) = long_shape n done_marks"
    using run_marks [of sv topic depth] pre_report_eq [of "report_marks n @ done_marks"]
    by (simp add: long_shape_def report_marks_def)
  then show ?thesis by blast
qed

lemma example_planned: "createResearchPlan example_services = Inr example_plan"
  by (simp add: createResearchPlan_def example_services_def example_plan_def
      ResearchPlanSchema_def)

lemma example_cut: "cut_of example_services ''basic'' = Done 2"
  by code_simp

lemma example_succeeds: "\<not> isl (snd (research example_services topic ''basic''))"
  using research_succeeds [of example_services topic "''basic''"] example_cut by simp

lemma example_marks:
  "map mark_of (frames_of (start example_services topic ''basic'')) = long_shape 2 done_marks"
  using run_marks [of example_services topic "''basic''"] example_cut
    pre_report_eq [of "report_marks 2 @ done_marks"]
  by (simp add: long_shape_def report_marks_def)

lemma example_length: "length (frames_of (start example_services topic ''basic'')) = 41"
proof -
  have "length (map mark_of (frames_of (start example_services topic ''basic''))) = 41"
    unfolding example_marks by (simp add: long_shape_def pre_report_def done_marks_def)
  then show ?thesis by simp
qed

lemma example_mark_at:
  "i < 41 \<Longrightarrow> mark_of (frames_of (start example_services topic ''basic'') ! i)
     = long_shape 2 done_marks ! i"
  using example_marks [of topic] example_length [of topic]
  by (metis nth_map)

lemma down_planned: "createResearchPlan down_services = Inl ''model unavailable''"
  by (simp add: createResearchPlan_def down_services_def)


lemma floor_rat_half [simp]: "\<lfloor>(1 :: rat) / numeral b\<rfloor> = 1 div numeral b"
  using floor_divide_of_int_eq [of 1 "numeral b", where ?'a = rat] by simp

lemma long_shape_progress:
  "prog_marks (long_shape n done_marks) = [14, 21, 28, 35, 42, 75, 80, 85, 90, 95, 95, 100]"
  by (simp add: long_shape_def pre_report_def done_marks_def)

lemma long_shape_done_at: "long_shape n ending ! 34 = Finished 12 ''completed''"
  by (simp add: long_shape_def pre_report_def)

lemma long_shape_length: "length (long_shape n ending) = 36 + n + length ending"
  by (simp add: long_shape_def pre_report_def)

lemma long_shape_reported_at: "long_shape n done_marks ! (36 + n) = Reported"
proof -
  have "long_shape n done_marks =
          (pre_report @ [Started 12, Finished 12 ''completed'', Prog 95] @ replicate n Chunk)
            @ done_marks"
    by (simp add: long_shape_def)
  moreover have "length (pre_report @ [Started 12, Finished 12 ''completed'', Prog 95]
                   @ replicate n Chunk) = 36 + n"
    by (simp add: pre_report_def)
  ultimately show ?thesis
    by (metis nth_append_length done_marks_def)
qed


subsection \<open>Replaying frames on the client\<close>

lemma handle_all_append: "handle_all (fs @ gs) s = handle_all gs (handle_all fs s)"
  by (induction fs arbitrary: s) simp_all

lemma overwritten_field:
  assumes "\<And>f. (\<forall>s. g (handleServerEvent f s) = g s) \<or> (\<exists>v. \<forall>s. g (handleServerEvent f s) = v)"
  shows "(\<forall>s. g (handle_all fs s) = g s) \<or> (\<exists>v. \<forall>s. g (handle_all fs s) = v)"
proof (induction fs)
  case Nil
  then show ?case by simp
next
  case (Cons f fs)
  from Cons.IH show ?case
  proof
    assume a: "\<forall>s. g (handle_all fs s) = g s"
    from assms [of f] show ?thesis using a by auto
  next
    assume "\<exists>v. \<forall>s. g (handle_all fs s) = v"
    then show ?thesis by auto
  qed
qed

lemma replayed_field:
  assumes "\<And>f. (\<forall>s. g (handleServerEvent f s) = g s) \<or> (\<exists>v. \<forall>s. g (handleServerEvent f s) = v)"
  shows "g (handle_all fs (handle_all fs s)) = g (handle_all fs s)"
  using overwritten_field [of g fs, OF assms] by metis

lemma progress_overwritten:
  "(\<forall>s. progress (handleServerEvent f s) = progress s) \<or> (\<exists>v. \<forall>s. progress (handleServerEvent f s) = v)"
  by (cases f) (auto simp: addUpdate_def updateProgress_def Let_def)

lemma status_overwritten:
  "(\<forall>s. status (handleServerEvent f s) = status s) \<or> (\<exists>v. \<forall>s. status (handleServerEvent f s) = v)"
  by (cases f) (auto simp: addUpdate_def updateProgress_def Let_def)

lemma isActive_overwritten:
  "(\<forall>s. isActive (handleServerEvent f s) = isActive s) \<or> (\<exists>v. \<forall>s. isActive (handleServerEvent f s) = v)"
  by (cases f) (auto simp: addUpdate_def updateProgress_def Let_def)

lemma error_overwritten:
  "(\<forall>s. error (handleServerEvent f s) = error s) \<or> (\<exists>v. \<forall>s. error (handleServerEvent f s) = v)"
  by (cases f) (auto simp: addUpdate_def updateProgress_def Let_def)

lemma researchPlan_overwritten:
  "(\<forall>s. researchPlan (handleServerEvent f s) = researchPlan s) \<or>
   (\<exists>v. \<forall>s. researchPlan (handleServerEvent f s) = v)"
  by (cases f) (auto simp: addUpdate_def updateProgress_def Let_def)

lemma finalSources_overwritten:
  "(\<forall>s. finalSources (handleServerEvent f s) = finalSources s) \<or>
   (\<exists>v. \<forall>s. finalSources (handleServerEvent f s) = v)"
  by (cases f) (auto simp: addUpdate_def updateProgress_def Let_def)

lemma planLinks_overwritten:
  "(\<forall>s. planLinks (handleServerEvent f s) = planLinks s) \<or>
   (\<exists>v. \<forall>s. planLinks (handleServerEvent f s) = v)"
  by (cases f) (auto simp: addUpdate_def updateProgress_def Let_def)

lemma updates_length:
  "length (updates (handle_all fs s)) = length (updates s) + length (filter is_step_start fs)"
proof (induction fs arbitrary: s)
  case Nil
  then show ?case by simp
next
  case (Cons f fs)
  have "length (updates (handleServerEvent f s)) =
          length (updates s) + (if is_step_start f then 1 else 0)"
    by (cases f) (simp_all add: addUpdate_def updateProgress_def Let_def)
  with Cons.IH [of "handleServerEvent f s"] show ?case by simp
qed

lemma result_step: "result s = result s' \<Longrightarrow> result (handleServerEvent f s) = result (handleServerEvent f s')"
  by (cases f) (simp_all add: addUpdate_def updateProgress_def Let_def)

lemma result_fold: "result s = result s' \<Longrightarrow> result (handle_all fs s) = result (handle_all fs s')"
proof (induction fs arbitrary: s s')
  case Nil
  then show ?case by simp
next
  case (Cons f fs)
  from Cons.IH [OF result_step [OF Cons.prems, of f]] show ?case by simp
qed

lemma result_after_report:
  "list_ex is_report_complete fs \<Longrightarrow> result (handle_all fs s) = result (handle_all fs s')"
proof (induction fs arbitrary: s s')
  case Nil
  then show ?case by simp
next
  case (Cons f fs)
  show ?case
  proof (cases "is_report_complete f")
    case True
    then have "result (handleServerEvent f s) = result (handleServerEvent f s')"
      by (cases f) simp_all
    from result_fold [OF this] show ?thesis by simp
  next
    case False
    with Cons.prems have "list_ex is_report_complete fs" by simp
    from Cons.IH [OF this] show ?thesis by simp
  qed
qed


subsection \<open>The snapshot invariant\<close>

lemma snapshots_of_append [simp]: "snapshots_of (a @ b) = snapshots_of a @ snapshots_of b"
  by (induction a rule: snapshots_of.induct) simp_all

lemma those_length: "those xs = Some ys \<Longrightarrow> length ys = length xs"
  by (induction xs arbitrary: ys) (auto split: option.splits)

lemma links_of_length: "links_of host rs = Some links \<Longrightarrow> length links = length rs"
  using those_length by (fastforce simp add: links_of_def)

lemma append_search_consistent:
  "links_of host (ws_results res) = Some links \<Longrightarrow> links_consistent pld \<Longrightarrow>
     links_consistent (append_search stepNumber search res links pld)"
  by (simp add: links_consistent_def append_search_def links_of_length)

lemma append_analysis_consistent:
  "links_consistent pld \<Longrightarrow> links_consistent (append_analysis stepNumber analysis res rate pld)"
  by (simp add: links_consistent_def append_analysis_def)

lemma snapshots_db_update: "snapshots_of (db_update mid u) = (if mid = None then [] else [mu_plan_links u])"
  by (simp add: db_update_def split: option.splits)

lemma search_step_consistent:
  assumes "links_consistent (planLinksData st)"
    and "search_step sv depth plan mid i st = (t, r)"
  shows "list_all links_consistent (snapshots_of t) \<and>
         (\<forall>st1. r = Inr st1 \<longrightarrow> links_consistent (planLinksData st1))"
proof (cases "links_of (url_hostname sv) (ws_results (search_result sv depth plan i))")
  case None
  with assms(2) show ?thesis
    by (auto simp add: search_step_def search_result_def Let_def)
next
  case (Some links)
  from append_search_consistent [OF Some assms(1)] Some assms(2) show ?thesis
    by (auto simp add: search_step_def search_result_def Let_def snapshots_db_update)
qed

lemma analysis_step_consistent:
  assumes "links_consistent (planLinksData st)"
    and "analysis_step sv plan mid i st = (t, r)"
  shows "list_all links_consistent (snapshots_of t) \<and>
         (\<forall>st1. r = Inr st1 \<longrightarrow> links_consistent (planLinksData st1))"
  using assms append_analysis_consistent
  by (auto simp add: analysis_step_def Let_def snapshots_db_update split: sum.splits)

lemma search_loop_consistent:
  "links_consistent (planLinksData st) \<Longrightarrow> search_loop sv depth plan mid i st = (t, r) \<Longrightarrow>
     list_all links_consistent (snapshots_of t) \<and>
     (\<forall>st'. r = Inr st' \<longrightarrow> links_consistent (planLinksData st'))"
proof (induction sv depth plan mid i st arbitrary: t r rule: search_loop.induct)
  case (1 sv depth plan mid i st)
  show ?case
  proof (cases "i < length (searches plan)")
    case False
    with "1.prems" show ?thesis by (auto simp add: search_loop.simps)
  next
    case True
    obtain t1 r1 where step: "search_step sv depth plan mid i st = (t1, r1)"
      by (cases "search_step sv depth plan mid i st")
    note s = search_step_consistent [OF "1.prems"(1) step]
    show ?thesis
    proof (cases r1)
      case (Inl err)
      with step True "1.prems"(2) s show ?thesis by (simp add: search_loop.simps)
    next
      case (Inr st1)
      obtain t' r' where rest: "search_loop sv depth plan mid (i + 1) st1 = (t', r')"
        by (cases "search_loop sv depth plan mid (i + 1) st1")
      from s Inr have c1: "links_consistent (planLinksData st1)" by simp
      from "1.IH" [OF True step [symmetric] Inr c1 rest]
      have ih: "list_all links_consistent (snapshots_of t') \<and>
                (\<forall>st'. r' = Inr st' \<longrightarrow> links_consistent (planLinksData st'))" .
      from step Inr True rest "1.prems"(2) have "t = t1 @ t'" "r = r'"
        by (simp_all add: search_loop.simps)
      with s ih show ?thesis by simp
    qed
  qed
qed

lemma analysis_loop_consistent:
  "links_consistent (planLinksData st) \<Longrightarrow> analysis_loop sv plan mid i st = (t, r) \<Longrightarrow>
     list_all links_consistent (snapshots_of t) \<and>
     (\<forall>st'. r = Inr st' \<longrightarrow> links_consistent (planLinksData st'))"
proof (induction sv plan mid i st arbitrary: t r rule: analysis_loop.induct)
  case (1 sv plan mid i st)
  show ?case
  proof (cases "i < length (analyses plan)")
    case False
    with "1.prems" show ?thesis by (auto simp add: analysis_loop.simps)
  next
    case True
    obtain t1 r1 where step: "analysis_step sv plan mid i st = (t1, r1)"
      by (cases "analysis_step sv plan mid i st")
    note s = analysis_step_consistent [OF "1.prems"(1) step]
    show ?thesis
    proof (cases r1)
      case (Inl err)
      with step True "1.prems"(2) s show ?thesis by (simp add: analysis_loop.simps)
    next
      case (Inr st1)
      obtain t' r' where rest: "analysis_loop sv plan mid (i + 1) st1 = (t', r')"
        by (cases "analysis_loop sv plan mid (i + 1) st1")
      from s Inr have c1: "links_consistent (planLinksData st1)" by simp
      from "1.IH" [OF True step [symmetric] Inr c1 rest]
      have ih: "list_all links_consistent (snapshots_of t') \<and>
                (\<forall>st'. r' = Inr st' \<longrightarrow> links_consistent (planLinksData st'))" .
      from step Inr True rest "1.prems"(2) have "t = t1 @ t'" "r = r'"
        by (simp_all add: analysis_loop.simps)
      with s ih show ?thesis by simp
    qed
  qed
qed

lemma snapshots_of_emits [simp]: "snapshots_of (map (\<lambda>c. Emit (f c)) cs) = []"
  by (induction cs) simp_all

lemma reporting_consistent:
  "links_consistent (planLinksData st) \<Longrightarrow>
     list_all links_consistent (snapshots_of (fst (reporting sv mid st)))"
  by (auto simp add: reporting_def Let_def links_consistent_def
      split: sum.splits option.splits prod.splits)

lemma research_consistent: "list_all links_consistent (snapshots_of (fst (research sv topic depth)))"
proof (cases "createResearchPlan sv")
  case (Inl err)
  from planning_failure [OF Inl, of topic] show ?thesis by (simp add: research_def)
next
  case (Inr plan)
  have c0: "links_consistent initial_links"
    by (simp add: links_consistent_def initial_links_def)
  from planning_success [OF Inr, of topic] obtain t1 st0 where
    p: "planning sv topic = (t1, Inr (plan, insert_reply sv, st0))" and
    s0: "planLinksData st0 = initial_links" and
    t1: "snapshots_of t1 = [initial_links]"
    by auto
  let ?mid = "insert_reply sv"
  let ?st0 = "st0 \<lparr> currentStatus := Searching \<rparr>"
  obtain t2 r2 where l2: "search_loop sv depth plan ?mid 0 ?st0 = (t2, r2)"
    by (cases "search_loop sv depth plan ?mid 0 ?st0")
  have c0': "links_consistent (planLinksData ?st0)" using c0 s0 by simp
  note i2 = search_loop_consistent [OF c0' l2]
  show ?thesis
  proof (cases r2)
    case (Inl err)
    with p l2 have "research sv topic depth = (t1 @ t2, Inl err)" by (simp add: research_def)
    with t1 c0 i2 show ?thesis by simp
  next
    case (Inr st1)
    let ?st1 = "st1 \<lparr> currentStatus := Analyzing \<rparr>"
    obtain t3 r3 where l3: "analysis_loop sv plan ?mid 0 ?st1 = (t3, r3)"
      by (cases "analysis_loop sv plan ?mid 0 ?st1")
    have c1: "links_consistent (planLinksData ?st1)" using i2 Inr by simp
    note i3 = analysis_loop_consistent [OF c1 l3]
    show ?thesis
    proof (cases r3)
      case (Inl err)
      with p l2 l3 \<open>r2 = Inr st1\<close> have "research sv topic depth = (t1 @ t2 @ t3, Inl err)"
        by (simp add: research_def)
      with t1 c0 i2 i3 show ?thesis by simp
    next
      case (Inr st2)
      obtain t4 r4 where l4: "reporting sv ?mid st2 = (t4, r4)"
        by (cases "reporting sv ?mid st2")
      from i3 Inr have c2: "links_consistent (planLinksData st2)" by simp
      from reporting_consistent [OF c2, of sv ?mid] l4
      have i4: "list_all links_consistent (snapshots_of t4)" by simp
      from p l2 l3 l4 Inr \<open>r2 = Inr st1\<close>
      have "research sv topic depth = (t1 @ t2 @ t3 @ t4, r4)" by (simp add: research_def)
      with t1 c0 i2 i3 i4 show ?thesis by simp
    qed
  qed
qed


subsection \<open>A search whose provider throws\<close>

lemma show_nat_zero: "show_nat 0 = ''0''"
  by code_simp

lemma thrown_search_result:
  "tvly_search sv k (s_query (searches plan ! k))
       (tavily_options depth (s_priority (searches plan ! k))) = Inl err \<Longrightarrow>
   search_result sv depth plan k =
     \<lparr> ws_type = ''web'',
       ws_query = (s_query (searches plan ! k), s_priority (searches plan ! k)),
       ws_results = [], ws_error = Some err \<rparr>"
  by (simp add: search_result_def executeWebSearch_def)

lemma empty_search_result:
  "tvly_search sv k (s_query (searches plan ! k))
       (tavily_options depth (s_priority (searches plan ! k))) = Inr [] \<Longrightarrow>
   search_result sv depth plan k =
     \<lparr> ws_type = ''web'',
       ws_query = (s_query (searches plan ! k), s_priority (searches plan ! k)),
       ws_results = [], ws_error = None \<rparr>"
  by (simp add: search_result_def executeWebSearch_def)

lemma empty_search_ok:
  "ws_results (search_result sv depth plan k) = [] \<Longrightarrow> search_ok sv depth plan k"
  by (simp add: search_ok_def links_of_def)

lemma empty_search_frames:
  "ws_results (search_result sv depth plan k) = [] \<Longrightarrow>
   search_frames sv depth plan k =
     [Step_Start (k + 2) (''Web Search '' @ show_nat (k + 1))
        (''Searching: \"'' @ s_query (searches plan ! k) @ ''\"'') ''running'',
      Step_Complete (k + 2) (''Web Search '' @ show_nat (k + 1)) ''Found 0 sources''
        ''completed'' (Some (Search_Data (s_query (searches plan ! k)) 0 [])),
      Progress (js_round (of_nat (k + 2) / of_nat (5 + length (analyses plan)) * 70))]"
  by (simp add: search_frames_def search_start_frame_def show_nat_zero)

lemma empty_search_step:
  assumes "ws_results (search_result sv depth plan k) = []"
  shows "\<exists>t st1. search_step sv depth plan mid k st = (t, Inr st1) \<and>
           frames_of t = search_frames sv depth plan k \<and>
           pl_searches (planLinksData st1) =
             pl_searches (planLinksData st) @
             [\<lparr> sl_step = k + 2, sl_query = s_query (searches plan ! k),
                sl_priority = s_priority (searches plan ! k), sl_links = [],
                sl_status = ''completed'', sl_result_count = 0 \<rparr>] \<and>
           total_links (planLinksData st1) = total_links (planLinksData st) \<and>
           searchResults st1 = searchResults st @ [search_result sv depth plan k]"
proof -
  obtain t r where step: "search_step sv depth plan mid k st = (t, r)"
    by (cases "search_step sv depth plan mid k st")
  from search_step_result [of sv depth plan mid k st] empty_search_ok [OF assms] step
  obtain st1 where r: "r = Inr st1" by auto
  from search_step_frames [of sv depth plan mid k st] empty_search_ok [OF assms] step
  have f: "frames_of t = search_frames sv depth plan k" by simp
  from search_step_state [of sv depth plan mid k st t st1] step r
  have s: "searchResults st1 = searchResults st @ [search_result sv depth plan k]"
    by simp
  from assms step r
  have p: "pl_searches (planLinksData st1) =
             pl_searches (planLinksData st) @
             [\<lparr> sl_step = k + 2, sl_query = s_query (searches plan ! k),
                sl_priority = s_priority (searches plan ! k), sl_links = [],
                sl_status = ''completed'', sl_result_count = 0 \<rparr>] \<and>
           total_links (planLinksData st1) = total_links (planLinksData st)"
    by (auto simp add: search_step_def search_result_def links_of_def append_search_def Let_def)
  from step r f s p show ?thesis by blast
qed

lemma concat_blocks_nth:
  assumes "\<And>x. length (f x) = 3" "k < n"
  shows "concat (map f [0..<n]) ! (3 * k + 1) = f k ! 1"
  using assms(2)
proof (induction n)
  case 0
  then show ?case by simp
next
  case (Suc n)
  have len: "length (concat (map f [0..<n])) = 3 * n"
    by (induction n) (simp_all add: assms(1))
  show ?case
  proof (cases "k < n")
    case True
    then have "3 * k + 1 < 3 * n" by simp
    with Suc.IH [OF True] len show ?thesis by (simp add: nth_append)
  next
    case False
    with Suc.prems have "k = n" by simp
    with len show ?thesis by (simp add: nth_append)
  qed
qed

lemma search_frame_at:
  assumes plan: "createResearchPlan sv = Inr plan" and k: "k < 5"
    and ok: "list_all (search_ok sv depth plan) [0..<5]"
  shows "frames_of (start sv topic depth) ! (3 * k + 4) = search_frames sv depth plan k ! 1"
proof -
  from createResearchPlan_schema [OF plan]
  have len: "length (searches plan) = 5" "length (analyses plan) = 5" by simp_all
  have tw: "takeWhile (search_ok sv depth plan) [0..<5] = [0..<5]"
    using ok by (simp add: list_all_iff)
  have sf: "searching_frames sv depth plan = concat (map (search_frames sv depth plan) [0..<5])"
    using ok by (simp add: searching_frames_def len tw)
  have l3: "length (search_frames sv depth plan x) = 3" for x
    by (simp add: search_frames_def)
  have lsf: "length (searching_frames sv depth plan) = 15"
    unfolding sf by (simp add: upt_rec l3)
  from research_frames(1) [OF plan, of topic depth] ok len
  obtain rest where fr: "frames_of (fst (research sv topic depth)) =
      planning_frames plan @ searching_frames sv depth plan @ rest"
    by auto
  have "frames_of (start sv topic depth) ! (3 * k + 4) =
          (planning_frames plan @ searching_frames sv depth plan @ rest @
             (if isl (snd (research sv topic depth))
              then [Error_Frame (projl (snd (research sv topic depth))) ''Unknown''] else []))
          ! (3 * k + 4)"
    by (simp add: start_frames fr)
  also have "\<dots> = searching_frames sv depth plan ! (3 * k + 1)"
    using k lsf by (simp add: nth_append planning_frames_def)
  also have "\<dots> = search_frames sv depth plan k ! 1"
    unfolding sf using concat_blocks_nth [of "search_frames sv depth plan" k 5] l3 k by simp
  finally show ?thesis .
qed

lemma calm_run_succeeds:
  assumes plan: "createResearchPlan sv = Inr plan"
    and "list_all (search_ok sv depth plan) [0..<5]"
    and "list_all (analysis_ok sv) [0..<5]"
    and "\<not> report_fails sv (all_sources sv depth plan)"
  shows "\<not> isl (snd (research sv topic depth))"
  using research_frames(2) [OF plan, of topic depth] createResearchPlan_schema [OF plan] assms
  by simp

subsection \<open>What a successful run emits\<close>

lemma started_steps_marks: "started_steps fs = started_marks (map mark_of fs)"
  by (induction fs rule: started_steps.induct) simp_all

lemma completed_steps_marks: "completed_steps fs = completed_marks (map mark_of fs)"
  by (induction fs rule: completed_steps.induct) simp_all

lemma started_marks_chunks [simp]: "started_marks (replicate n Chunk @ ms) = started_marks ms"
  by (induction n) simp_all

lemma completed_marks_chunks [simp]: "completed_marks (replicate n Chunk @ ms) = completed_marks ms"
  by (induction n) simp_all

lemma mark_failed: "is_error f \<longleftrightarrow> mark_of f = Failed"
  by (cases f) auto

lemma mark_phase: "mark_of f = Phase ph \<longleftrightarrow> f = Status_Change ph"
  by (cases f) auto

lemma successful_run_steps:
  assumes "\<not> isl (snd (research sv topic depth))"
  shows "started_steps (frames_of (start sv topic depth)) = [1, 2, 3, 4, 5, 6, 7, 8, 9, 10, 11, 12]"
    and "completed_steps (frames_of (start sv topic depth)) =
           map (\<lambda>s. (s, ''completed'')) [1, 2, 3, 4, 5, 6, 7, 8, 9, 10, 11, 12]"
    and "\<not> list_ex is_error (frames_of (start sv topic depth))"
    and "last (frames_of (start sv topic depth)) = Status_Change Complete"
proof -
  let ?fs = "frames_of (start sv topic depth)"
  from successful_marks [OF assms] obtain n where n: "map mark_of ?fs = long_shape n done_marks"
    by blast
  show "started_steps ?fs = [1, 2, 3, 4, 5, 6, 7, 8, 9, 10, 11, 12]"
    by (simp add: started_steps_marks n long_shape_def pre_report_def done_marks_def)
  show "completed_steps ?fs = map (\<lambda>s. (s, ''completed'')) [1, 2, 3, 4, 5, 6, 7, 8, 9, 10, 11, 12]"
    by (simp add: completed_steps_marks n long_shape_def pre_report_def done_marks_def)
  have "Failed \<notin> set (map mark_of ?fs)"
    unfolding n by (simp add: long_shape_def pre_report_def done_marks_def)
  then show "\<not> list_ex is_error ?fs"
    by (force simp add: list_ex_iff mark_failed)
  have ne: "?fs \<noteq> []" using n by (auto simp add: long_shape_def pre_report_def)
  have "last (map mark_of ?fs) = Phase Complete"
    unfolding n by (simp add: long_shape_def done_marks_def)
  with ne have "mark_of (last ?fs) = Phase Complete" by (simp add: last_map)
  then show "last ?fs = Status_Change Complete" by (simp add: mark_phase)
qed

lemma start_closes: "last (start sv topic depth) = Close"
  by (cases "research sv topic depth") (auto simp add: start_def split: sum.splits)


lemma example_host_examples:
  "example_host ''https://a.org/qubits'' = Some ''a.org'' \<and>
   example_host ''https://k.org/x'' = Some ''k.org'' \<and>
   example_host ''a.org/qubits'' = None \<and>
   example_host ''k.org/x'' = None \<and>
   example_host ''not a url'' = None \<and>
   example_host [] = None"
  by code_simp

lemma report_ok_iff:
  "\<not> report_fails sv allSources \<longleftrightarrow>
     (\<exists>chunks. report_reply sv = Inr (chunks, None)) \<and>
     (insert_reply sv = None \<or> citations_of (url_hostname sv) allSources \<noteq> None)"
  by (auto simp add: report_fails_def split: sum.splits prod.splits)

lemma example_searches_ok: "list_all (search_ok example_services ''basic'' example_plan) [0..<5]"
  by code_simp

lemma example_analyses_ok: "list_all (analysis_ok example_services) [0..<5]"
  by code_simp

lemma example_report_ok:
  "\<not> report_fails example_services (all_sources example_services ''basic'' example_plan)"
  by code_simp

lemma example_thrown:
  "tvly_search example_services 2 (s_query (searches example_plan ! 2))
     (tavily_options ''basic'' (s_priority (searches example_plan ! 2))) = Inl ''timeout''"
  by (simp add: example_services_def)


subsection \<open>The persisted row and the live view of a completed run\<close>

lemma persist_keeps: "\<exists>row'. fold (persist sv) t (Some row) = Some row'"
proof (induction t arbitrary: row)
  case Nil
  then show ?case by simp
next
  case (Cons e t)
  obtain row1 where "persist sv e (Some row) = Some row1"
    by (cases e; cases "insert_reply sv"; simp)
  with Cons.IH [of row1] show ?case by simp
qed

lemma reporting_success_trace:
  assumes "reporting sv (Some mid) st = (t, Inr u)"
  shows "\<exists>t' chunks cs.
           report_reply sv = Inr (chunks, None) \<and>
           citations_of (url_hostname sv)
             (collect_sources (searchResults st) (analysisResults st)) = Some cs \<and>
           t = t' @ [Db_Update mid
                      \<lparr> mu_plan_links = (planLinksData st) \<lparr> completion_rate := 100 \<rparr>,
                        mu_status = Complete, mu_progress = 100,
                        mu_content = Some (concat chunks), mu_citations = Some cs \<rparr>]"
  using assms
  by (auto simp add: reporting_def Let_def split: sum.splits option.splits prod.splits)

lemma research_success_trace:
  assumes plan: "createResearchPlan sv = Inr plan"
    and ok: "\<not> isl (snd (research sv topic depth))"
    and ins: "insert_reply sv = Some mid"
  shows "\<exists>t' pld chunks cs.
           fst (research sv topic depth) =
             [Emit (Step_Start 1 ''Research Planning''
                      ''Creating comprehensive research plan...'' ''running''),
              Request (Plan_Call topic),
              Emit (Step_Complete 1 ''Research Planning''
                      ''Research plan created successfully'' ''completed'' None),
              Emit (Research_Plan plan (5 + length (analyses plan))),
              Db_Insert \<lparr> research_plan_links = Some initial_links,
                          research_plan = Some plan,
                          research_status = Some Planning, research_progress = Some 10,
                          content = Some [], citation_sources = None \<rparr>] @
             t' @ [Db_Update mid
                     \<lparr> mu_plan_links = pld, mu_status = Complete, mu_progress = 100,
                       mu_content = Some (concat chunks), mu_citations = Some cs \<rparr>] \<and>
           report_reply sv = Inr (chunks, None) \<and>
           citations_of (url_hostname sv) (all_sources sv depth plan) = Some cs"
proof -
  from planning_success [OF plan, of topic] obtain t1 st0 where
    p: "planning sv topic = (t1, Inr (plan, insert_reply sv, st0))" and
    s0: "searchResults st0 = []" "analysisResults st0 = []" and
    t1: "t1 = [Emit (Step_Start 1 ''Research Planning''
                      ''Creating comprehensive research plan...'' ''running''),
              Request (Plan_Call topic),
              Emit (Step_Complete 1 ''Research Planning''
                      ''Research plan created successfully'' ''completed'' None),
              Emit (Research_Plan plan (5 + length (analyses plan))),
              Db_Insert \<lparr> research_plan_links = Some initial_links,
                          research_plan = Some plan,
                          research_status = Some Planning, research_progress = Some 10,
                          content = Some [], citation_sources = None \<rparr>]"
    by blast
  let ?mid = "insert_reply sv"
  let ?st0 = "st0 \<lparr> currentStatus := Searching \<rparr>"
  obtain t2 r2 where l2: "search_loop sv depth plan ?mid 0 ?st0 = (t2, r2)"
    by (cases "search_loop sv depth plan ?mid 0 ?st0")
  show ?thesis
  proof (cases r2)
    case (Inl err)
    with p l2 have "research sv topic depth = (t1 @ t2, Inl err)" by (simp add: research_def)
    with ok show ?thesis by simp
  next
    case (Inr st1)
    from search_loop_state [of sv depth plan ?mid 0 ?st0 t2 st1] l2 Inr s0
    have s1: "searchResults st1 = map (search_result sv depth plan) [0..<length (searches plan)]"
      "analysisResults st1 = []"
      by simp_all
    let ?st1 = "st1 \<lparr> currentStatus := Analyzing \<rparr>"
    obtain t3 r3 where l3: "analysis_loop sv plan ?mid 0 ?st1 = (t3, r3)"
      by (cases "analysis_loop sv plan ?mid 0 ?st1")
    show ?thesis
    proof (cases r3)
      case (Inl err)
      with p l2 l3 \<open>r2 = Inr st1\<close> have "research sv topic depth = (t1 @ t2 @ t3, Inl err)"
        by (simp add: research_def)
      with ok show ?thesis by simp
    next
      case (Inr st2)
      from analysis_loop_state [of sv plan ?mid 0 ?st1 t3 st2] l3 Inr s1
      have s2: "collect_sources (searchResults st2) (analysisResults st2) =
                  all_sources sv depth plan"
        by (simp add: all_sources_def)
      obtain t4 r4 where l4: "reporting sv ?mid st2 = (t4, r4)"
        by (cases "reporting sv ?mid st2")
      from p l2 l3 l4 Inr \<open>r2 = Inr st1\<close>
      have whole: "research sv topic depth = (t1 @ t2 @ t3 @ t4, r4)"
        by (simp add: research_def)
      with ok obtain u where r4: "r4 = Inr u" by (cases r4) simp_all
      from reporting_success_trace [of sv mid st2 t4 u] l4 r4 ins s2
      obtain t' chunks cs where
        rr: "report_reply sv = Inr (chunks, None)" and
        ci: "citations_of (url_hostname sv) (all_sources sv depth plan) = Some cs" and
        t4: "t4 = t' @ [Db_Update mid
                      \<lparr> mu_plan_links = (planLinksData st2) \<lparr> completion_rate := 100 \<rparr>,
                        mu_status = Complete, mu_progress = 100,
                        mu_content = Some (concat chunks), mu_citations = Some cs \<rparr>]"
        by auto
      from whole t1 t4
      have "fst (research sv topic depth) =
             [Emit (Step_Start 1 ''Research Planning''
                      ''Creating comprehensive research plan...'' ''running''),
              Request (Plan_Call topic),
              Emit (Step_Complete 1 ''Research Planning''
                      ''Research plan created successfully'' ''completed'' None),
              Emit (Research_Plan plan (5 + length (analyses plan))),
              Db_Insert \<lparr> research_plan_links = Some initial_links,
                          research_plan = Some plan,
                          research_status = Some Planning, research_progress = Some 10,
                          content = Some [], citation_sources = None \<rparr>] @
             (t2 @ t3 @ t') @ [Db_Update mid
                     \<lparr> mu_plan_links = (planLinksData st2) \<lparr> completion_rate := 100 \<rparr>,
                       mu_status = Complete, mu_progress = 100,
                       mu_content = Some (concat chunks), mu_citations = Some cs \<rparr>]"
        by simp
      with rr ci show ?thesis by blast
    qed
  qed
qed

lemma persisted_success:
  assumes plan: "createResearchPlan sv = Inr plan"
    and ok: "\<not> isl (snd (research sv topic depth))"
    and ins: "insert_reply sv = Some mid"
  shows "\<exists>row pld chunks cs.
           persisted sv (start sv topic depth) =
             Some (apply_update
                     \<lparr> mu_plan_links = pld, mu_status = Complete, mu_progress = 100,
                       mu_content = Some (concat chunks), mu_citations = Some cs \<rparr> row) \<and>
           citations_of (url_hostname sv) (all_sources sv depth plan) = Some cs"
proof -
  from research_success_trace [OF plan ok ins] obtain t' pld chunks cs where
    tr: "fst (research sv topic depth) =
             [Emit (Step_Start 1 ''Research Planning''
                      ''Creating comprehensive research plan...'' ''running''),
              Request (Plan_Call topic),
              Emit (Step_Complete 1 ''Research Planning''
                      ''Research plan created successfully'' ''completed'' None),
              Emit (Research_Plan plan (5 + length (analyses plan))),
              Db_Insert \<lparr> research_plan_links = Some initial_links,
                          research_plan = Some plan,
                          research_status = Some Planning, research_progress = Some 10,
                          content = Some [], citation_sources = None \<rparr>] @
             t' @ [Db_Update mid
                     \<lparr> mu_plan_links = pld, mu_status = Complete, mu_progress = 100,
                       mu_content = Some (concat chunks), mu_citations = Some cs \<rparr>]" and
    ci: "citations_of (url_hostname sv) (all_sources sv depth plan) = Some cs"
    by blast
  from ok have st: "start sv topic depth = fst (research sv topic depth) @ [Close]"
    by (cases "research sv topic depth") (auto simp add: start_def split: sum.splits)
  obtain row where row: "fold (persist sv) t'
      (Some \<lparr> research_plan_links = Some initial_links,
                          research_plan = Some plan,
                          research_status = Some Planning, research_progress = Some 10,
                          content = Some [], citation_sources = None \<rparr>) = Some row"
    using persist_keeps by blast
  have "persisted sv (start sv topic depth) =
          Some (apply_update
                     \<lparr> mu_plan_links = pld, mu_status = Complete, mu_progress = 100,
                       mu_content = Some (concat chunks), mu_citations = Some cs \<rparr> row)"
    by (simp add: persisted_def st tr ins row)
  with ci show ?thesis by blast
qed

lemma those_map_rel:
  "those (map f ys) = Some cs \<Longrightarrow> list_all2 (\<lambda>y c. f y = Some c) ys cs"
  by (induction ys arbitrary: cs) (auto split: option.splits)

lemma list_all2_map_eq:
  "list_all2 (\<lambda>y c. g c = k y) ys cs \<Longrightarrow> map g cs = map k ys"
  by (induction ys cs rule: list_all2_induct) simp_all

lemma citations_back:
  assumes "citations_of host xs = Some cs"
  shows "map (\<lambda>source. \<lparr> ks_title = c_title source, ks_url = c_url source,
                          ks_relevance = (if c_relevance source = 0 then 7 / 10
                                          else c_relevance source) \<rparr>) cs =
         map (\<lambda>s. \<lparr> ks_title = ks_title s, ks_url = ks_url s,
                     ks_relevance = (if ks_relevance s = 0 then 7 / 10 else ks_relevance s) \<rparr>) xs"
    and "length cs = length xs"
proof -
  let ?g = "\<lambda>source. \<lparr> ks_title = c_title source, ks_url = c_url source,
                          ks_relevance = (if c_relevance source = 0 then 7 / 10
                                          else c_relevance source) \<rparr>"
  let ?h = "\<lambda>s. \<lparr> ks_title = ks_title s, ks_url = ks_url s,
                     ks_relevance = (if ks_relevance s = 0 then 7 / 10 else ks_relevance s) \<rparr>"
  from assms have rel: "list_all2 (\<lambda>y c. citation_of host y = Some c) (enumerate 0 xs) cs"
    by (simp add: citations_of_def those_map_rel)
  have pw: "citation_of host y = Some c \<Longrightarrow> ?g c = (?h \<circ> snd) y" for y c
    by (cases y) (auto simp add: citation_of_def split: option.splits)
  have "list_all2 (\<lambda>y c. ?g c = (?h \<circ> snd) y) (enumerate 0 xs) cs"
    by (rule list_all2_mono [OF rel]) (rule pw)
  from list_all2_map_eq [OF this] have "map ?g cs = map (?h \<circ> snd) (enumerate 0 xs)" .
  also have "\<dots> = map ?h (map snd (enumerate 0 xs))" by (simp only: map_map)
  also have "\<dots> = map ?h xs" by (simp only: map_snd_enumerate)
  finally show "map ?g cs = map ?h xs" .
  from rel show "length cs = length xs" by (auto dest: list_all2_lengthD)
qed

lemma fold_invariant:
  "(\<And>x a. P a \<Longrightarrow> P (f x a)) \<Longrightarrow> P a \<Longrightarrow> P (fold f xs a)"
  by (induction xs arbitrary: a) simp_all

lemma add_source_nonzero:
  "\<forall>s\<in>set acc. ks_relevance s \<noteq> 0 \<Longrightarrow> r \<noteq> 0 \<Longrightarrow>
     \<forall>s\<in>set (add_source title url r acc). ks_relevance s \<noteq> 0"
  by (simp add: add_source_def)

lemma collect_sources_nonzero: "\<forall>s\<in>set (collect_sources srs ars). ks_relevance s \<noteq> 0"
proof -
  let ?P = "\<lambda>acc. \<forall>s\<in>set acc. ks_relevance s \<noteq> (0::rat)"
  have a: "?P (fold (\<lambda>r. add_source (w_title r) (w_url r) (8 / 10)) rs acc)" if "?P acc" for rs acc
    using that by (rule fold_invariant [rotated]) (rule add_source_nonzero, simp_all)
  have b: "?P (fold (\<lambda>source. add_source (ks_title source) (ks_url source)
                 (if ks_relevance source = 0 then 7 / 10 else ks_relevance source)) ks acc)"
    if "?P acc" for ks acc
    using that by (rule fold_invariant [rotated]) (rule add_source_nonzero, simp_all)
  have "?P (fold (\<lambda>searchResult. fold (\<lambda>r. add_source (w_title r) (w_url r) (8 / 10))
                                (ws_results searchResult)) srs [])"
    by (rule fold_invariant) (rule a, simp_all)
  then show ?thesis
    unfolding collect_sources_def
    by (rule fold_invariant [rotated]) (rule b)
qed

lemma sources_round_trip:
  assumes "citations_of host (collect_sources srs ars) = Some cs"
  shows "map (\<lambda>source. \<lparr> ks_title = c_title source, ks_url = c_url source,
                          ks_relevance = (if c_relevance source = 0 then 7 / 10
                                          else c_relevance source) \<rparr>) cs =
         collect_sources srs ars"
proof -
  have "map (\<lambda>s. \<lparr> ks_title = ks_title s, ks_url = ks_url s,
                     ks_relevance = (if ks_relevance s = 0 then 7 / 10 else ks_relevance s) \<rparr>)
          (collect_sources srs ars) = collect_sources srs ars"
    using collect_sources_nonzero [of srs ars] by (intro map_idI) simp
  with citations_back(1) [OF assms] show ?thesis by simp
qed


lemma live_view_of_success:
  assumes plan: "createResearchPlan sv = Inr plan"
    and ok: "\<not> isl (snd (research sv topic depth))"
  shows "progress (handle_all (frames_of (start sv topic depth)) s) = 100"
    and "status (handle_all (frames_of (start sv topic depth)) s) = Complete"
    and "finalSources (handle_all (frames_of (start sv topic depth)) s)
           = Some (all_sources sv depth plan)"
proof -
  from research_frames(2) [OF plan, of topic depth] ok
  have c: "list_all (search_ok sv depth plan) [0..<length (searches plan)]"
    "list_all (analysis_ok sv) [0..<length (analyses plan)]"
    "\<not> report_fails sv (all_sources sv depth plan)"
    by simp_all
  from c(3) obtain chunks where rr: "report_reply sv = Inr (chunks, None)"
    by (auto simp add: report_fails_def split: sum.splits prod.splits)
  from research_frames(1) [OF plan, of topic depth] c ok rr
  obtain pre where fr: "frames_of (start sv topic depth) =
      pre @ [Report_Complete (concat chunks) (length (all_sources sv depth plan))
               (Some (all_sources sv depth plan)),
             Progress 100, Status_Change Complete]"
    by (simp add: start_frames report_frames_def)
  show "progress (handle_all (frames_of (start sv topic depth)) s) = 100"
    by (simp add: fr handle_all_append updateProgress_def)
  show "status (handle_all (frames_of (start sv topic depth)) s) = Complete"
    by (simp add: fr handle_all_append updateProgress_def)
  show "finalSources (handle_all (frames_of (start sv topic depth)) s)
           = Some (all_sources sv depth plan)"
    by (simp add: fr handle_all_append updateProgress_def)
qed

lemma recovered_view_of_success:
  assumes plan: "createResearchPlan sv = Inr plan"
    and ok: "\<not> isl (snd (research sv topic depth))"
    and ins: "insert_reply sv = Some mid"
  shows "fst (recoverFromDatabase (persisted sv (start sv topic depth)) prev) = True"
    and "progress (snd (recoverFromDatabase (persisted sv (start sv topic depth)) prev)) = 100"
    and "status (snd (recoverFromDatabase (persisted sv (start sv topic depth)) prev)) = Complete"
    and "finalSources (snd (recoverFromDatabase (persisted sv (start sv topic depth)) prev)) =
           (if all_sources sv depth plan = [] then None else Some (all_sources sv depth plan))"
proof -
  from persisted_success [OF plan ok ins] obtain row pld chunks cs where
    ps: "persisted sv (start sv topic depth) =
             Some (apply_update
                     \<lparr> mu_plan_links = pld, mu_status = Complete, mu_progress = 100,
                       mu_content = Some (concat chunks), mu_citations = Some cs \<rparr> row)" and
    ci: "citations_of (url_hostname sv) (all_sources sv depth plan) = Some cs"
    by blast
  from citations_back(2) [OF ci] have len: "length cs = length (all_sources sv depth plan)" .
  note ci' = ci [unfolded all_sources_def]
  from sources_round_trip [OF ci']
  have rt: "map (\<lambda>source. \<lparr> ks_title = c_title source, ks_url = c_url source,
                          ks_relevance = (if c_relevance source = 0 then 7 / 10
                                          else c_relevance source) \<rparr>) cs =
         all_sources sv depth plan"
    by (simp add: all_sources_def)
  show "fst (recoverFromDatabase (persisted sv (start sv topic depth)) prev) = True"
    by (simp add: ps recoverFromDatabase_def apply_update_def Let_def)
  show "progress (snd (recoverFromDatabase (persisted sv (start sv topic depth)) prev)) = 100"
    by (simp add: ps recoverFromDatabase_def apply_update_def Let_def)
  show "status (snd (recoverFromDatabase (persisted sv (start sv topic depth)) prev)) = Complete"
    by (simp add: ps recoverFromDatabase_def apply_update_def Let_def)
  show "finalSources (snd (recoverFromDatabase (persisted sv (start sv topic depth)) prev)) =
           (if all_sources sv depth plan = [] then None else Some (all_sources sv depth plan))"
    using len rt by (auto simp add: ps recoverFromDatabase_def apply_update_def Let_def)
qed

lemma quiet_planned: "createResearchPlan quiet_services = Inr example_plan"
  by (simp add: createResearchPlan_def quiet_services_def example_services_def example_plan_def
      ResearchPlanSchema_def)

lemma quiet_cut: "cut_of quiet_services ''basic'' = Done 2"
  by code_simp

lemma quiet_succeeds: "\<not> isl (snd (research quiet_services topic ''basic''))"
  using research_succeeds [of quiet_services topic "''basic''"] quiet_cut by simp

lemma quiet_sources: "all_sources quiet_services ''basic'' example_plan = []"
  by code_simp

lemma quiet_inserted: "insert_reply quiet_services = Some ''m1''"
  by (simp add: quiet_services_def example_services_def)

lemma example_inserted: "insert_reply example_services = Some ''m1''"
  by (simp add: example_services_def)

lemma example_sources: "all_sources example_services ''basic'' example_plan \<noteq> []"
  by code_simp

subsection \<open>The specified properties\<close>

text \<open>
  C4. When the planning call fails (the model adapter throws, or its object does not
  match the plan schema), the run consists of the start of step 1, the planning call, one
  \<open>error\<close> frame carrying the message, and the closing of the stream: no frame for step 2
  or later, no search, analysis or report call, and no write to the database.
\<close>

theorem planning_failure_ends_run:
  "createResearchPlan sv = Inl err \<Longrightarrow>
     start sv topic depth =
       [Emit (Step_Start 1 ''Research Planning'' ''Creating comprehensive research plan...''
                ''running''),
        Request (Plan_Call topic),
        Emit (Error_Frame err ''Unknown''),
        Close] \<and>
     frames_of (start sv topic depth) =
       [Step_Start 1 ''Research Planning'' ''Creating comprehensive research plan...''
          ''running'',
        Error_Frame err ''Unknown'']"
proof -
  assume a: "createResearchPlan sv = Inl err"
  from planning_failure [OF a, of topic] have "research sv topic depth =
      ([Emit (Step_Start 1 ''Research Planning'' ''Creating comprehensive research plan...''
                 ''running''),
        Request (Plan_Call topic)], Inl err)"
    by (simp add: research_def)
  then show ?thesis by (simp add: start_def)
qed

theorem planning_failure_ends_run_witness:
  "createResearchPlan down_services = Inl ''model unavailable'' \<and>
   start down_services ''quantum computing'' ''basic'' =
     [Emit (Step_Start 1 ''Research Planning'' ''Creating comprehensive research plan...''
              ''running''),
      Request (Plan_Call ''quantum computing''),
      Emit (Error_Frame ''model unavailable'' ''Unknown''),
      Close]"
  using planning_failure_ends_run [OF down_planned, of "''quantum computing''" "''basic''"]
    down_planned
  by simp

text \<open>
  C5. In every run the values of the \<open>progress\<close> frames are non-decreasing in the order
  of emission, and so is the progress of the client state folded over the prefixes of the
  frame sequence: a longer prefix never shows less progress than a shorter one.
\<close>

theorem progress_never_decreases:
  "sorted (progress_values (frames_of (start sv topic depth))) \<and>
   (\<forall>k l. k \<le> l \<and> l \<le> length (frames_of (start sv topic depth)) \<longrightarrow>
      progress (handle_all (take k (frames_of (start sv topic depth))) started_state)
        \<le> progress (handle_all (take l (frames_of (start sv topic depth))) started_state))"
proof -
  let ?fs = "frames_of (start sv topic depth)"
  let ?ms = "shape (cut_of sv depth)"
  have ms: "map mark_of ?fs = ?ms" by (rule run_marks)
  have p0: "progress started_state = 0" by (simp add: started_state_def initial_state_def)
  have "sorted (progress_values ?fs)"
    using shapes_checked(1) [OF valid_cut_of, of sv depth] by (simp add: progress_values_marks ms)
  moreover have "progress (handle_all (take k ?fs) started_state)
                   \<le> progress (handle_all (take l ?fs) started_state)"
    if kl: "k \<le> l" "l \<le> length ?fs" for k l
  proof -
    have srt: "sorted (view_trace 0 ?ms)" by (rule shapes_checked(2) [OF valid_cut_of])
    have len: "length (view_trace 0 ?ms) = Suc (length ?fs)"
      using view_trace_length [of 0 ?ms] ms by (metis length_map)
    from kl have k: "k \<le> length ?fs" by simp
    have "view_trace 0 ?ms ! k \<le> view_trace 0 ?ms ! l"
      using srt kl len by (simp add: sorted_nth_mono)
    then show ?thesis
      using view_trace_nth [OF k, of started_state] view_trace_nth [OF kl(2), of started_state]
      by (simp add: ms p0)
  qed
  ultimately show ?thesis by blast
qed

theorem progress_never_decreases_witness:
  "(5::nat) \<le> 40 \<and> 40 \<le> length (frames_of (start example_services ''quantum'' ''basic'')) \<and>
   progress (handle_all (take 5 (frames_of (start example_services ''quantum'' ''basic'')))
       started_state)
     \<le> progress (handle_all (take 40 (frames_of (start example_services ''quantum'' ''basic'')))
       started_state)"
  using progress_never_decreases [of example_services "''quantum''" "''basic''"]
    example_length [of "''quantum''"]
  by simp


text \<open>
  C7. In every run, the frame that follows the completion of a search step \<open>s\<close> (2 to 6)
  is the progress frame with value \<open>round (s / 10 * 70)\<close>, and the frame that follows the
  completion of the \<open>j\<close>-th analysis (step \<open>6 + j\<close>) is the progress frame with value
  \<open>round (70 + j / 5 * 25)\<close>; the plan schema fixes five searches and five analyses, so the
  total is 10. These values are 14, 21, 28, 35, 42 and 75, 80, 85, 90, 95, and a run that
  ends without an exception emits all of them, followed by 95 and 100 for the report.
\<close>

theorem progress_after_each_step:
  "(\<forall>i s. i < length (frames_of (start sv topic depth)) \<and>
          completed_step (frames_of (start sv topic depth) ! i) = Some s \<and> 2 \<le> s \<and> s \<le> 11 \<longrightarrow>
          Suc i < length (frames_of (start sv topic depth)) \<and>
          frames_of (start sv topic depth) ! Suc i =
            Progress (if s \<le> 6 then js_round (of_nat s / 10 * 70)
                      else js_round (70 + of_nat (s - 6) / 5 * 25))) \<and>
   (\<not> isl (snd (research sv topic depth)) \<longrightarrow>
      progress_values (frames_of (start sv topic depth)) =
        [14, 21, 28, 35, 42, 75, 80, 85, 90, 95, 95, 100]) \<and>
   map (\<lambda>s. js_round (of_nat s / 10 * 70)) [2, 3, 4, 5, 6] = [14, 21, 28, 35, 42] \<and>
   map (\<lambda>j. js_round (70 + of_nat j / 5 * 25)) [1, 2, 3, 4, 5] = [75, 80, 85, 90, 95]"
proof -
  let ?fs = "frames_of (start sv topic depth)"
  let ?ms = "shape (cut_of sv depth)"
  have ms: "map mark_of ?fs = ?ms" by (rule run_marks)
  have pr: "paired ?ms" by (rule shapes_checked(3) [OF valid_cut_of])
  have "Suc i < length ?fs \<and> ?fs ! Suc i = Progress (step_progress s)"
    if a: "i < length ?fs" "completed_step (?fs ! i) = Some s" "2 \<le> s" "s \<le> 11" for i s
  proof -
    from a(2) obtain st where "mark_of (?fs ! i) = Finished s st"
      using mark_finished by blast
    with a(1) have m: "?ms ! i = Finished s st" using ms by (metis nth_map)
    have li: "i < length ?ms" using a(1) ms by (metis length_map)
    from paired_nth [OF pr li m a(3) a(4)]
    have n: "Suc i < length ?ms" "?ms ! Suc i = Prog (step_progress s)" by simp_all
    from n(1) have l: "Suc i < length ?fs" using ms by (metis length_map)
    with n(2) have "mark_of (?fs ! Suc i) = Prog (step_progress s)" using ms by (metis nth_map)
    with l show ?thesis by (simp add: mark_prog)
  qed
  then have first: "\<forall>i s. i < length ?fs \<and> completed_step (?fs ! i) = Some s \<and> 2 \<le> s \<and> s \<le> 11 \<longrightarrow>
          Suc i < length ?fs \<and>
          ?fs ! Suc i = Progress (if s \<le> 6 then js_round (of_nat s / 10 * 70)
                      else js_round (70 + of_nat (s - 6) / 5 * 25))"
    by (simp add: step_progress_def)
  have second: "progress_values ?fs = [14, 21, 28, 35, 42, 75, 80, 85, 90, 95, 95, 100]"
    if "\<not> isl (snd (research sv topic depth))"
    using successful_marks [OF that] long_shape_progress
    by (auto simp add: progress_values_marks)
  have third: "map (\<lambda>s. js_round (of_nat s / 10 * 70)) [2, 3, 4, 5, 6] = [14, 21, 28, 35, 42] \<and>
     map (\<lambda>j. js_round (70 + of_nat j / 5 * 25)) [1, 2, 3, 4, 5] = [75, 80, 85, 90, 95]"
    by (simp add: js_round_def)
  from first second third show ?thesis by blast
qed

theorem progress_after_each_step_witness:
  "(4::nat) < length (frames_of (start example_services ''quantum'' ''basic'')) \<and>
   completed_step (frames_of (start example_services ''quantum'' ''basic'') ! 4) = Some 2 \<and>
   frames_of (start example_services ''quantum'' ''basic'') ! Suc 4 = Progress 14 \<and>
   \<not> isl (snd (research example_services ''quantum'' ''basic'')) \<and>
   progress_values (frames_of (start example_services ''quantum'' ''basic'')) =
     [14, 21, 28, 35, 42, 75, 80, 85, 90, 95, 95, 100]"
proof -
  have m: "mark_of (frames_of (start example_services ''quantum'' ''basic'') ! 4)
             = Finished 2 ''completed''"
    using example_mark_at [of 4 "''quantum''"] by (simp add: long_shape_def pre_report_def)
  then have c: "completed_step (frames_of (start example_services ''quantum'' ''basic'') ! 4) = Some 2"
    using mark_finished by blast
  have l: "(4::nat) < length (frames_of (start example_services ''quantum'' ''basic''))"
    by (simp add: example_length)
  note t = progress_after_each_step [of example_services "''quantum''" "''basic''"]
  from t l c have "frames_of (start example_services ''quantum'' ''basic'') ! Suc 4 =
      Progress (if (2::nat) \<le> 6 then js_round (of_nat 2 / 10 * 70)
                else js_round (70 + of_nat (2 - 6) / 5 * 25))"
    by (metis (no_types, lifting) numeral_le_iff order_refl semiring_norm(69) semiring_norm(72) semiring_norm(73) semiring_norm(68) semiring_norm(71))
  then have n: "frames_of (start example_services ''quantum'' ''basic'') ! Suc 4 = Progress 14"
    by (simp add: js_round_def)
  from t example_succeeds [of "''quantum''"]
  have "progress_values (frames_of (start example_services ''quantum'' ''basic'')) =
     [14, 21, 28, 35, 42, 75, 80, 85, 90, 95, 95, 100]"
    by blast
  with l c n example_succeeds [of "''quantum''"] show ?thesis by blast
qed

text \<open>
  C10. In every run, each fragment of the report and the final \<open>report_complete\<close> frame
  come after the \<open>step_complete\<close> frame of step 12 with status \<open>completed\<close>: the report step
  is marked completed before the first fragment is streamed. A run that ends without an
  exception contains that \<open>step_complete\<close> frame and the \<open>report_complete\<close> frame.
\<close>

theorem report_completed_before_streaming:
  "(\<forall>i. i < length (frames_of (start sv topic depth)) \<and>
        (is_chunk (frames_of (start sv topic depth) ! i) \<or>
         is_report_complete (frames_of (start sv topic depth) ! i)) \<longrightarrow>
        (\<exists>j<i. completes 12 (frames_of (start sv topic depth) ! j))) \<and>
   (\<not> isl (snd (research sv topic depth)) \<longrightarrow>
      (\<exists>j<length (frames_of (start sv topic depth)).
          completes 12 (frames_of (start sv topic depth) ! j)) \<and>
      (\<exists>i<length (frames_of (start sv topic depth)).
          is_report_complete (frames_of (start sv topic depth) ! i)))"
proof -
  let ?fs = "frames_of (start sv topic depth)"
  let ?ms = "shape (cut_of sv depth)"
  have ms: "map mark_of ?fs = ?ms" by (rule run_marks)
  have len: "length ?ms = length ?fs" using ms by (metis length_map)
  have at: "?ms ! i = mark_of (?fs ! i)" if "i < length ?fs" for i
    using that ms by (metis nth_map)
  have rd: "report_after_done False ?ms" by (rule shapes_checked(4) [OF valid_cut_of])
  have first: "\<exists>j<i. completes 12 (?fs ! j)"
    if a: "i < length ?fs" "is_chunk (?fs ! i) \<or> is_report_complete (?fs ! i)" for i
  proof -
    from a have "?ms ! i = Chunk \<or> ?ms ! i = Reported"
      using at [OF a(1)] by (simp add: mark_chunk mark_reported)
    with report_after_done_nth [OF rd, of i] a(1) len
    obtain j where j: "j < i" "?ms ! j = Finished 12 ''completed''" by auto
    then have "completes 12 (?fs ! j)" using at [of j] a(1) by (simp add: mark_completes)
    with j(1) show ?thesis by blast
  qed
  have second: "(\<exists>j<length ?fs. completes 12 (?fs ! j)) \<and>
                (\<exists>i<length ?fs. is_report_complete (?fs ! i))"
    if "\<not> isl (snd (research sv topic depth))"
  proof -
    from successful_marks [OF that] obtain n where n: "map mark_of ?fs = long_shape n done_marks"
      by blast
    have "length (map mark_of ?fs) = 36 + n + length done_marks"
      unfolding n by (rule long_shape_length)
    then have l: "length ?fs = 39 + n" by (simp add: done_marks_def)
    have "map mark_of ?fs ! 34 = Finished 12 ''completed''"
      unfolding n by (rule long_shape_done_at)
    moreover have l34: "34 < length ?fs" using l by simp
    ultimately have d: "completes 12 (?fs ! 34)" by (simp add: mark_completes)
    have "map mark_of ?fs ! (36 + n) = Reported"
      unfolding n by (rule long_shape_reported_at)
    moreover have l36: "36 + n < length ?fs" using l by simp
    ultimately have r: "is_report_complete (?fs ! (36 + n))" by (simp add: mark_reported)
    from d l34 r l36 show ?thesis by blast
  qed
  from first second show ?thesis by blast
qed

theorem report_completed_before_streaming_witness:
  "(36::nat) < length (frames_of (start example_services ''quantum'' ''basic'')) \<and>
   is_chunk (frames_of (start example_services ''quantum'' ''basic'') ! 36) \<and>
   (\<exists>j<36. completes 12 (frames_of (start example_services ''quantum'' ''basic'') ! j)) \<and>
   \<not> isl (snd (research example_services ''quantum'' ''basic''))"
proof -
  have "mark_of (frames_of (start example_services ''quantum'' ''basic'') ! 36) = Chunk"
    using example_mark_at [of 36 "''quantum''"]
    by (simp add: long_shape_def pre_report_def numeral_2_eq_2)
  then have c: "is_chunk (frames_of (start example_services ''quantum'' ''basic'') ! 36)"
    by (simp add: mark_chunk)
  have l: "(36::nat) < length (frames_of (start example_services ''quantum'' ''basic''))"
    by (simp add: example_length)
  from report_completed_before_streaming [of example_services "''quantum''" "''basic''"] l c
    example_succeeds [of "''quantum''"]
  show ?thesis by blast
qed


text \<open>
  C3. Replaying a frame sequence on top of the state that folding it once produced leaves
  progress, phase, activity, error message, plan, final sources and snapshot as they were,
  and leaves the report text as it was when the sequence holds a \<open>report_complete\<close> frame.
  The step list is not preserved: every \<open>step_start\<close> frame appends one more entry, so the
  list grows by the number of \<open>step_start\<close> frames of the sequence.
\<close>

theorem replay_keeps_scalar_fields:
  "progress (handle_all fs (handle_all fs s)) = progress (handle_all fs s) \<and>
   status (handle_all fs (handle_all fs s)) = status (handle_all fs s) \<and>
   isActive (handle_all fs (handle_all fs s)) = isActive (handle_all fs s) \<and>
   error (handle_all fs (handle_all fs s)) = error (handle_all fs s) \<and>
   researchPlan (handle_all fs (handle_all fs s)) = researchPlan (handle_all fs s) \<and>
   finalSources (handle_all fs (handle_all fs s)) = finalSources (handle_all fs s) \<and>
   planLinks (handle_all fs (handle_all fs s)) = planLinks (handle_all fs s) \<and>
   length (updates (handle_all fs (handle_all fs s))) =
     length (updates (handle_all fs s)) + length (filter is_step_start fs) \<and>
   (list_ex is_report_complete fs \<longrightarrow>
      result (handle_all fs (handle_all fs s)) = result (handle_all fs s))"
  using replayed_field [of progress fs s, OF progress_overwritten]
    replayed_field [of status fs s, OF status_overwritten]
    replayed_field [of isActive fs s, OF isActive_overwritten]
    replayed_field [of error fs s, OF error_overwritten]
    replayed_field [of researchPlan fs s, OF researchPlan_overwritten]
    replayed_field [of finalSources fs s, OF finalSources_overwritten]
    replayed_field [of planLinks fs s, OF planLinks_overwritten]
    updates_length [of fs "handle_all fs s"]
    result_after_report [of fs "handle_all fs s" s]
  by simp

theorem replay_keeps_scalar_fields_witness:
  "list_ex is_report_complete
     [Step_Start 12 ''Final Report Generation'' '''' ''running'', Report_Chunk ''text'',
      Report_Complete ''text'' 0 (Some [])] \<and>
   result (handle_all
       [Step_Start 12 ''Final Report Generation'' '''' ''running'', Report_Chunk ''text'',
        Report_Complete ''text'' 0 (Some [])]
       (handle_all
          [Step_Start 12 ''Final Report Generation'' '''' ''running'', Report_Chunk ''text'',
           Report_Complete ''text'' 0 (Some [])] started_state))
     = Some ''text'' \<and>
   length (updates (handle_all
       [Step_Start 12 ''Final Report Generation'' '''' ''running'', Report_Chunk ''text'',
        Report_Complete ''text'' 0 (Some [])]
       (handle_all
          [Step_Start 12 ''Final Report Generation'' '''' ''running'', Report_Chunk ''text'',
           Report_Complete ''text'' 0 (Some [])] started_state))) = 2"
  using replay_keeps_scalar_fields
    [of "[Step_Start 12 ''Final Report Generation'' '''' ''running'', Report_Chunk ''text'',
          Report_Complete ''text'' 0 (Some [])]" started_state]
  by (simp add: started_state_def initial_state_def addUpdate_def)

theorem replay_not_idempotent_counterexample:
  "handle_all
     [Step_Start 1 ''Research Planning'' ''Creating comprehensive research plan...'' ''running'']
     (handle_all
        [Step_Start 1 ''Research Planning'' ''Creating comprehensive research plan...''
           ''running'']
        started_state)
   \<noteq> handle_all
       [Step_Start 1 ''Research Planning'' ''Creating comprehensive research plan...''
          ''running'']
       started_state \<and>
   length (updates (handle_all
     [Step_Start 1 ''Research Planning'' ''Creating comprehensive research plan...'' ''running'']
     (handle_all
        [Step_Start 1 ''Research Planning'' ''Creating comprehensive research plan...''
           ''running'']
        started_state))) = 2 \<and>
   length (updates (handle_all
       [Step_Start 1 ''Research Planning'' ''Creating comprehensive research plan...''
          ''running'']
       started_state)) = 1"
  by (simp add: started_state_def initial_state_def addUpdate_def)

text \<open>
  C8. Recovery is not applicable, and the view state is left as it was, when there is no
  message row or the row has no snapshot (\<open>research_plan_links\<close> is null). A snapshot that
  is present but holds no search and no analysis record is recovered: the call returns
  true and replaces the view state. The new view is active unless the row's status is
  \<open>complete\<close>; its progress is the row's (0 when absent) and its phase the row's status
  (\<open>planning\<close> when absent); its step list holds the planning step when the row has a plan
  and the report step when the run is complete and has content, and nothing else; its
  report text is the row's content (none when empty), its error is cleared, its plan is
  the row's, its final sources are the row's citation sources (none when absent or
  empty), and its snapshot is the row's.
\<close>

theorem recovery_not_applicable:
  "recoverFromDatabase None prev = (False, prev) \<and>
   (research_plan_links m = None \<longrightarrow> recoverFromDatabase (Some m) prev = (False, prev)) \<and>
   (research_plan_links m = Some links \<and> pl_searches links = [] \<and> pl_analyses links = [] \<longrightarrow>
      recoverFromDatabase (Some m) prev =
        (True,
         \<lparr> isActive = (research_status m \<noteq> Some Complete),
           progress = (case research_progress m of None \<Rightarrow> 0 | Some p \<Rightarrow> p),
           status = (case research_status m of None \<Rightarrow> Planning | Some s \<Rightarrow> s),
           updates =
             (case research_plan m of
                None \<Rightarrow> []
              | Some _ \<Rightarrow> [\<lparr> u_step = 1, u_title = ''Research Planning'',
                             u_description = ''Research plan created successfully'',
                             u_status = ''completed'', u_data = None \<rparr>]) @
             (if research_status m = Some Complete \<and> truthy_text (content m)
              then [\<lparr> u_step = 12, u_title = ''Final Report Generation'',
                      u_description = ''Report generated successfully'',
                      u_status = ''completed'', u_data = None \<rparr>]
              else []),
           result = (if truthy_text (content m) then content m else None),
           error = None,
           researchPlan = research_plan m,
           finalSources =
             (case citation_sources m of
                None \<Rightarrow> None
              | Some cs \<Rightarrow>
                  if cs = [] then None
                  else Some (map (\<lambda>source.
                         \<lparr> ks_title = c_title source, ks_url = c_url source,
                           ks_relevance = (if c_relevance source = 0 then 7 / 10
                                           else c_relevance source) \<rparr>) cs)),
           planLinks = Some links \<rparr>))"
  by (auto simp add: recoverFromDatabase_def Let_def split: option.splits)

theorem recovery_not_applicable_witness:
  "research_plan_links bare_row = None \<and>
   recoverFromDatabase (Some bare_row) started_state = (False, started_state) \<and>
   research_plan_links planned_row = Some initial_links \<and>
   pl_searches initial_links = [] \<and> pl_analyses initial_links = [] \<and>
   recoverFromDatabase (Some planned_row) started_state =
     (True,
      \<lparr> isActive = True, progress = 10, status = Planning,
        updates = [\<lparr> u_step = 1, u_title = ''Research Planning'',
                     u_description = ''Research plan created successfully'',
                     u_status = ''completed'', u_data = None \<rparr>],
        result = None, error = None, researchPlan = Some example_plan, finalSources = None,
        planLinks = Some initial_links \<rparr>)"
proof -
  have b: "research_plan_links bare_row = None" by (simp add: bare_row_def)
  have p: "research_plan_links planned_row = Some initial_links \<and>
           pl_searches initial_links = [] \<and> pl_analyses initial_links = []"
    by (simp add: planned_row_def initial_links_def)
  from recovery_not_applicable [of started_state bare_row initial_links] b
  have one: "recoverFromDatabase (Some bare_row) started_state = (False, started_state)" by blast
  from recovery_not_applicable [of started_state planned_row initial_links] p
  have "recoverFromDatabase (Some planned_row) started_state =
        (True,
         \<lparr> isActive = (research_status planned_row \<noteq> Some Complete),
           progress = (case research_progress planned_row of None \<Rightarrow> 0 | Some p \<Rightarrow> p),
           status = (case research_status planned_row of None \<Rightarrow> Planning | Some s \<Rightarrow> s),
           updates =
             (case research_plan planned_row of
                None \<Rightarrow> []
              | Some _ \<Rightarrow> [\<lparr> u_step = 1, u_title = ''Research Planning'',
                             u_description = ''Research plan created successfully'',
                             u_status = ''completed'', u_data = None \<rparr>]) @
             (if research_status planned_row = Some Complete \<and> truthy_text (content planned_row)
              then [\<lparr> u_step = 12, u_title = ''Final Report Generation'',
                      u_description = ''Report generated successfully'',
                      u_status = ''completed'', u_data = None \<rparr>]
              else []),
           result = (if truthy_text (content planned_row) then content planned_row else None),
           error = None,
           researchPlan = research_plan planned_row,
           finalSources =
             (case citation_sources planned_row of
                None \<Rightarrow> None
              | Some cs \<Rightarrow>
                  if cs = [] then None
                  else Some (map (\<lambda>source.
                         \<lparr> ks_title = c_title source, ks_url = c_url source,
                           ks_relevance = (if c_relevance source = 0 then 7 / 10
                                           else c_relevance source) \<rparr>) cs)),
           planLinks = Some initial_links \<rparr>)"
    by blast
  then have two: "recoverFromDatabase (Some planned_row) started_state =
     (True,
      \<lparr> isActive = True, progress = 10, status = Planning,
        updates = [\<lparr> u_step = 1, u_title = ''Research Planning'',
                     u_description = ''Research plan created successfully'',
                     u_status = ''completed'', u_data = None \<rparr>],
        result = None, error = None, researchPlan = Some example_plan, finalSources = None,
        planLinks = Some initial_links \<rparr>)"
    by (simp add: planned_row_def truthy_text_def)
  from b one p two show ?thesis by blast
qed

theorem recovery_of_empty_snapshot_counterexample:
  "fst (planning example_services ''quantum'') ! 4 = Db_Insert planned_row \<and>
   research_plan_links planned_row = Some initial_links \<and>
   pl_searches initial_links = [] \<and> pl_analyses initial_links = [] \<and>
   fst (recoverFromDatabase (Some planned_row) started_state) = True \<and>
   map u_step (updates (snd (recoverFromDatabase (Some planned_row) started_state))) = [1] \<and>
   progress (snd (recoverFromDatabase (Some planned_row) started_state)) = 10 \<and>
   snd (recoverFromDatabase (Some planned_row) started_state) \<noteq> started_state"
  by (simp add: planning_def example_planned recoverFromDatabase_def planned_row_def
      initial_links_def truthy_text_def started_state_def initial_state_def)


text \<open>
  C6. The snapshot starts with \<open>total_links = 0\<close> and no search record; every append of a
  search record keeps \<open>total_links\<close> equal to the sum of the lengths of the \<open>links\<close> of all
  search records; and every snapshot a run writes to the database satisfies this equation.
\<close>

theorem total_links_is_sum_of_links:
  "links_consistent initial_links \<and>
   (links_of host (ws_results res) = Some links \<and> links_consistent pld \<longrightarrow>
      links_consistent (append_search stepNumber search res links pld)) \<and>
   list_all links_consistent (snapshots_of (start sv topic depth)) \<and>
   (links_consistent pld \<longleftrightarrow>
      total_links pld = sum_list (map (\<lambda>r. length (sl_links r)) (pl_searches pld)))"
proof -
  have "list_all links_consistent (snapshots_of (start sv topic depth))"
    using research_consistent [of sv topic depth]
    by (cases "research sv topic depth") (auto simp add: start_def split: sum.splits)
  then show ?thesis
    using append_search_consistent [of host res links pld stepNumber search]
    by (simp add: links_consistent_def initial_links_def)
qed

theorem total_links_is_sum_of_links_witness:
  "links_of example_host (ws_results (search_result example_services ''basic'' example_plan 0))
     = Some [\<lparr> l_title = ''qubits'', l_url = ''https://a.org/qubits'', l_relevance = 8 / 10,
                l_domain = ''a.org'' \<rparr>] \<and>
   links_consistent initial_links \<and>
   links_consistent
     (append_search 2 (searches example_plan ! 0)
        (search_result example_services ''basic'' example_plan 0)
        [\<lparr> l_title = ''qubits'', l_url = ''https://a.org/qubits'', l_relevance = 8 / 10,
            l_domain = ''a.org'' \<rparr>]
        initial_links) \<and>
   total_links
     (append_search 2 (searches example_plan ! 0)
        (search_result example_services ''basic'' example_plan 0)
        [\<lparr> l_title = ''qubits'', l_url = ''https://a.org/qubits'', l_relevance = 8 / 10,
            l_domain = ''a.org'' \<rparr>]
        initial_links) = 1"
proof -
  have l: "links_of example_host (ws_results (search_result example_services ''basic'' example_plan 0))
     = Some [\<lparr> l_title = ''qubits'', l_url = ''https://a.org/qubits'', l_relevance = 8 / 10,
                l_domain = ''a.org'' \<rparr>]"
    by code_simp
  have t: "total_links
     (append_search 2 (searches example_plan ! 0)
        (search_result example_services ''basic'' example_plan 0)
        [\<lparr> l_title = ''qubits'', l_url = ''https://a.org/qubits'', l_relevance = 8 / 10,
            l_domain = ''a.org'' \<rparr>]
        initial_links) = 1"
    by code_simp
  from total_links_is_sum_of_links
    [of example_host "search_result example_services ''basic'' example_plan 0"
       "[\<lparr> l_title = ''qubits'', l_url = ''https://a.org/qubits'', l_relevance = 8 / 10,
            l_domain = ''a.org'' \<rparr>]" initial_links 2 "searches example_plan ! 0"
       example_services "''quantum''" "''basic''"] l t
  show ?thesis by blast
qed


text \<open>
  C1. When the search provider throws during the search of index \<open>k\<close> (step \<open>k + 2\<close>),
  or returns no result, \<open>executeWebSearch\<close> yields an empty result list and the iteration
  ends normally: its \<open>step_complete\<close> frame has status \<open>completed\<close>, description
  \<open>Found 0 sources\<close> and result count 0, and the search record appended to the snapshot has
  status \<open>completed\<close>, result count 0 and no links; the message of the exception is kept in
  the \<open>error\<close> field of the search result only. The run then starts and completes all
  twelve steps, each with status \<open>completed\<close>, emits no \<open>error\<close> frame, ends with
  \<open>status_change\<close> to \<open>complete\<close>, and closes the stream, provided that nothing else
  fails: the URLs of the results of the other searches parse, every analysis yields an
  object that matches its schema, the report stream is opened and ends without an
  exception, and, when the message row was inserted, the URL of every source of the
  citation list parses, the key sources named by the analyses included.
\<close>

theorem failed_search_is_recorded_completed:
  assumes "createResearchPlan sv = Inr plan" and "k < 5"
    and "tvly_search sv k (s_query (searches plan ! k))
           (tavily_options depth (s_priority (searches plan ! k))) = Inl err \<or>
         tvly_search sv k (s_query (searches plan ! k))
           (tavily_options depth (s_priority (searches plan ! k))) = Inr []"
  shows
    "(\<exists>t st1. search_step sv depth plan mid k st = (t, Inr st1) \<and>
        frames_of t =
          [Step_Start (k + 2) (''Web Search '' @ show_nat (k + 1))
             (''Searching: \"'' @ s_query (searches plan ! k) @ ''\"'') ''running'',
           Step_Complete (k + 2) (''Web Search '' @ show_nat (k + 1)) ''Found 0 sources''
             ''completed'' (Some (Search_Data (s_query (searches plan ! k)) 0 [])),
           Progress (js_round (of_nat (k + 2) / 10 * 70))] \<and>
        pl_searches (planLinksData st1) =
          pl_searches (planLinksData st) @
          [\<lparr> sl_step = k + 2, sl_query = s_query (searches plan ! k),
             sl_priority = s_priority (searches plan ! k), sl_links = [],
             sl_status = ''completed'', sl_result_count = 0 \<rparr>] \<and>
        searchResults st1 =
          searchResults st @
          [\<lparr> ws_type = ''web'',
             ws_query = (s_query (searches plan ! k), s_priority (searches plan ! k)),
             ws_results = [],
             ws_error = (case tvly_search sv k (s_query (searches plan ! k))
                              (tavily_options depth (s_priority (searches plan ! k))) of
                           Inl e \<Rightarrow> Some e | Inr _ \<Rightarrow> None) \<rparr>]) \<and>
     (list_all (\<lambda>j. j = k \<or> search_ok sv depth plan j) [0..<5] \<and>
      list_all (analysis_ok sv) [0..<5] \<and>
      (\<exists>chunks. report_reply sv = Inr (chunks, None)) \<and>
      (insert_reply sv = None \<or>
       citations_of (url_hostname sv) (all_sources sv depth plan) \<noteq> None) \<longrightarrow>
        frames_of (start sv topic depth) ! (3 * k + 4) =
          Step_Complete (k + 2) (''Web Search '' @ show_nat (k + 1)) ''Found 0 sources''
            ''completed'' (Some (Search_Data (s_query (searches plan ! k)) 0 [])) \<and>
        started_steps (frames_of (start sv topic depth)) =
          [1, 2, 3, 4, 5, 6, 7, 8, 9, 10, 11, 12] \<and>
        completed_steps (frames_of (start sv topic depth)) =
          map (\<lambda>s. (s, ''completed'')) [1, 2, 3, 4, 5, 6, 7, 8, 9, 10, 11, 12] \<and>
        \<not> list_ex is_error (frames_of (start sv topic depth)) \<and>
        last (frames_of (start sv topic depth)) = Status_Change Complete \<and>
        last (start sv topic depth) = Close)"
proof -
  from createResearchPlan_schema [OF assms(1)]
  have len: "length (searches plan) = 5" "length (analyses plan) = 5" by simp_all
  from assms(3) have res: "search_result sv depth plan k =
      \<lparr> ws_type = ''web'',
        ws_query = (s_query (searches plan ! k), s_priority (searches plan ! k)),
        ws_results = [],
        ws_error = (case tvly_search sv k (s_query (searches plan ! k))
                         (tavily_options depth (s_priority (searches plan ! k))) of
                      Inl e \<Rightarrow> Some e | Inr _ \<Rightarrow> None) \<rparr>"
    using thrown_search_result [of sv k plan depth err] empty_search_result [of sv k plan depth]
    by auto
  then have emp: "ws_results (search_result sv depth plan k) = []" by simp
  note fr = empty_search_frames [OF emp, unfolded len]
  have first: "\<exists>t st1. search_step sv depth plan mid k st = (t, Inr st1) \<and>
        frames_of t =
          [Step_Start (k + 2) (''Web Search '' @ show_nat (k + 1))
             (''Searching: \"'' @ s_query (searches plan ! k) @ ''\"'') ''running'',
           Step_Complete (k + 2) (''Web Search '' @ show_nat (k + 1)) ''Found 0 sources''
             ''completed'' (Some (Search_Data (s_query (searches plan ! k)) 0 [])),
           Progress (js_round (of_nat (k + 2) / 10 * 70))] \<and>
        pl_searches (planLinksData st1) =
          pl_searches (planLinksData st) @
          [\<lparr> sl_step = k + 2, sl_query = s_query (searches plan ! k),
             sl_priority = s_priority (searches plan ! k), sl_links = [],
             sl_status = ''completed'', sl_result_count = 0 \<rparr>] \<and>
        searchResults st1 =
          searchResults st @
          [\<lparr> ws_type = ''web'',
             ws_query = (s_query (searches plan ! k), s_priority (searches plan ! k)),
             ws_results = [],
             ws_error = (case tvly_search sv k (s_query (searches plan ! k))
                              (tavily_options depth (s_priority (searches plan ! k))) of
                           Inl e \<Rightarrow> Some e | Inr _ \<Rightarrow> None) \<rparr>]"
    using empty_search_step [OF emp, of mid st] fr res by auto
  have second: "frames_of (start sv topic depth) ! (3 * k + 4) =
          Step_Complete (k + 2) (''Web Search '' @ show_nat (k + 1)) ''Found 0 sources''
            ''completed'' (Some (Search_Data (s_query (searches plan ! k)) 0 [])) \<and>
        started_steps (frames_of (start sv topic depth)) =
          [1, 2, 3, 4, 5, 6, 7, 8, 9, 10, 11, 12] \<and>
        completed_steps (frames_of (start sv topic depth)) =
          map (\<lambda>s. (s, ''completed'')) [1, 2, 3, 4, 5, 6, 7, 8, 9, 10, 11, 12] \<and>
        \<not> list_ex is_error (frames_of (start sv topic depth)) \<and>
        last (frames_of (start sv topic depth)) = Status_Change Complete \<and>
        last (start sv topic depth) = Close"
    if others: "list_all (\<lambda>j. j = k \<or> search_ok sv depth plan j) [0..<5]"
      and an: "list_all (analysis_ok sv) [0..<5]"
      and rs: "\<exists>chunks. report_reply sv = Inr (chunks, None)"
      and rc: "insert_reply sv = None \<or>
               citations_of (url_hostname sv) (all_sources sv depth plan) \<noteq> None"
  proof -
    from rs rc have rp: "\<not> report_fails sv (all_sources sv depth plan)"
      unfolding report_ok_iff by (rule conjI)
    from others empty_search_ok [OF emp]
    have sok: "list_all (search_ok sv depth plan) [0..<5]"
      by (auto simp add: list_all_iff)
    note ok = calm_run_succeeds [OF assms(1) sok an rp, of topic]
    from search_frame_at [OF assms(1) assms(2) sok, of topic] fr
    have "frames_of (start sv topic depth) ! (3 * k + 4) =
          Step_Complete (k + 2) (''Web Search '' @ show_nat (k + 1)) ''Found 0 sources''
            ''completed'' (Some (Search_Data (s_query (searches plan ! k)) 0 []))"
      by simp
    with successful_run_steps [OF ok] start_closes [of sv topic depth] show ?thesis by simp
  qed
  from first second show ?thesis by blast
qed

theorem failed_search_is_recorded_completed_witness:
  "createResearchPlan example_services = Inr example_plan \<and> (2::nat) < 5 \<and>
   tvly_search example_services 2 (s_query (searches example_plan ! 2))
     (tavily_options ''basic'' (s_priority (searches example_plan ! 2))) = Inl ''timeout'' \<and>
   list_all (\<lambda>j. j = 2 \<or> search_ok example_services ''basic'' example_plan j) [0..<5] \<and>
   list_all (analysis_ok example_services) [0..<5] \<and>
   (\<exists>chunks. report_reply example_services = Inr (chunks, None)) \<and>
   (insert_reply example_services = None \<or>
    citations_of (url_hostname example_services)
      (all_sources example_services ''basic'' example_plan) \<noteq> None) \<and>
   completed_steps (frames_of (start example_services ''quantum'' ''basic'')) =
     map (\<lambda>s. (s, ''completed'')) [1, 2, 3, 4, 5, 6, 7, 8, 9, 10, 11, 12] \<and>
   last (frames_of (start example_services ''quantum'' ''basic'')) = Status_Change Complete"
proof -
  have two: "(2::nat) < 5" by simp
  have others: "list_all (\<lambda>j. j = 2 \<or> search_ok example_services ''basic'' example_plan j) [0..<5]"
    using example_searches_ok by (simp add: list_all_iff)
  note t = failed_search_is_recorded_completed
    [OF example_planned two disjI1 [OF example_thrown], of "Some ''m1''"
       "\<lparr> searchResults = [], analysisResults = [], planLinksData = initial_links,
          currentProgress = 0, currentStatus = Searching \<rparr>" "''quantum''"]
  note rp = example_report_ok [unfolded report_ok_iff]
  note rs = rp [THEN conjunct1]
  note rc = rp [THEN conjunct2]
  note c = t [THEN conjunct2, THEN mp,
      OF conjI [OF others conjI [OF example_analyses_ok conjI [OF rs rc]]]]
  note cs = c [THEN conjunct2, THEN conjunct2, THEN conjunct1]
  note la = c [THEN conjunct2, THEN conjunct2, THEN conjunct2, THEN conjunct2, THEN conjunct1]
  from example_planned two example_thrown others example_analyses_ok rs rc cs la
  show ?thesis by (intro conjI)
qed

theorem failed_search_status_counterexample:
  "tvly_search example_services 2 (s_query (searches example_plan ! 2))
     (tavily_options ''basic'' (s_priority (searches example_plan ! 2))) = Inl ''timeout'' \<and>
   frames_of (start example_services ''quantum'' ''basic'') ! 10 =
     Step_Complete 4 ''Web Search 3'' ''Found 0 sources'' ''completed''
       (Some (Search_Data ''vendors'' 0 [])) \<and>
   completed_steps (frames_of (start example_services ''quantum'' ''basic'')) ! 3
     = (4, ''completed'') \<and>
   ''completed'' \<noteq> ''error''"
proof -
  have emp: "ws_results (search_result example_services ''basic'' example_plan 2) = []"
    using thrown_search_result [OF example_thrown] by simp
  have two: "(2::nat) < 5" by simp
  have sn: "show_nat 3 = ''3''" by code_simp
  have q: "s_query (searches example_plan ! 2) = ''vendors''" by (simp add: example_plan_def)
  from search_frame_at [OF example_planned two example_searches_ok, of "''quantum''"]
    empty_search_frames [OF emp]
  have "frames_of (start example_services ''quantum'' ''basic'') ! 10 =
     Step_Complete 4 ''Web Search 3'' ''Found 0 sources'' ''completed''
       (Some (Search_Data ''vendors'' 0 []))"
    by (simp add: sn q)
  moreover have "completed_steps (frames_of (start example_services ''quantum'' ''basic'')) ! 3
     = (4, ''completed'')"
    using successful_run_steps(2) [OF example_succeeds, of "''quantum''"] by simp
  ultimately show ?thesis using example_thrown by simp
qed


text \<open>
  C2. For a run that ended without an exception and whose message row was inserted,
  recovery from the row the run leaves in the database succeeds, and the recovered view
  has the progress (100) and the phase (\<open>complete\<close>) of the view obtained by folding the
  run's frames from the freshly started state. The final sources agree when the citation
  list of the run is not empty. When it is empty, the live view holds the empty list and
  the recovered view holds no list at all.
\<close>

theorem recovery_matches_live_view:
  assumes "createResearchPlan sv = Inr plan"
    and "\<not> isl (snd (research sv topic depth))"
    and "insert_reply sv = Some mid"
  shows
    "fst (recoverFromDatabase (persisted sv (start sv topic depth)) prev) = True \<and>
     progress (snd (recoverFromDatabase (persisted sv (start sv topic depth)) prev)) =
       progress (handle_all (frames_of (start sv topic depth)) started_state) \<and>
     status (snd (recoverFromDatabase (persisted sv (start sv topic depth)) prev)) =
       status (handle_all (frames_of (start sv topic depth)) started_state) \<and>
     progress (handle_all (frames_of (start sv topic depth)) started_state) = 100 \<and>
     status (handle_all (frames_of (start sv topic depth)) started_state) = Complete \<and>
     finalSources (handle_all (frames_of (start sv topic depth)) started_state) =
       Some (all_sources sv depth plan) \<and>
     (all_sources sv depth plan \<noteq> [] \<longrightarrow>
        finalSources (snd (recoverFromDatabase (persisted sv (start sv topic depth)) prev)) =
          finalSources (handle_all (frames_of (start sv topic depth)) started_state)) \<and>
     (all_sources sv depth plan = [] \<longrightarrow>
        finalSources (snd (recoverFromDatabase (persisted sv (start sv topic depth)) prev)) =
          None)"
  using live_view_of_success [OF assms(1) assms(2), of started_state]
    recovered_view_of_success [OF assms, of prev]
  by simp

theorem recovery_matches_live_view_witness:
  "createResearchPlan example_services = Inr example_plan \<and>
   \<not> isl (snd (research example_services ''quantum'' ''basic'')) \<and>
   insert_reply example_services = Some ''m1'' \<and>
   all_sources example_services ''basic'' example_plan \<noteq> [] \<and>
   finalSources (snd (recoverFromDatabase
       (persisted example_services (start example_services ''quantum'' ''basic''))
       initial_state)) =
     finalSources (handle_all (frames_of (start example_services ''quantum'' ''basic''))
       started_state) \<and>
   progress (snd (recoverFromDatabase
       (persisted example_services (start example_services ''quantum'' ''basic''))
       initial_state)) = 100"
  using recovery_matches_live_view
    [OF example_planned example_succeeds example_inserted, of "''quantum''" initial_state]
    example_planned example_succeeds [of "''quantum''"] example_inserted example_sources
  by simp

theorem recovery_differs_on_empty_sources_counterexample:
  "\<not> isl (snd (research quiet_services ''quantum'' ''basic'')) \<and>
   insert_reply quiet_services = Some ''m1'' \<and>
   finalSources (handle_all (frames_of (start quiet_services ''quantum'' ''basic''))
       started_state) = Some [] \<and>
   finalSources (snd (recoverFromDatabase
       (persisted quiet_services (start quiet_services ''quantum'' ''basic''))
       initial_state)) = None"
  using live_view_of_success(3) [OF quiet_planned quiet_succeeds, of "''quantum''" started_state]
    recovered_view_of_success(4) [OF quiet_planned quiet_succeeds quiet_inserted,
      of "''quantum''" initial_state]
    quiet_succeeds [of "''quantum''"] quiet_inserted quiet_sources
  by simp

text \<open>
  C9. The result count requested from the search provider for a search of priority \<open>p\<close>
  is \<open>max 4 (min (8 - p) 12)\<close>: 7, 6, 5, 4, 4 for the priorities 1 to 5, never below
  4 nor above 12, and never larger for a numerically larger priority. The provider is
  asked exactly once, with these options: whatever the provider makes of the query, the
  depth, the answer flag and the requested count, \<open>executeWebSearch\<close> returns what it makes
  of this request, so a provider that answers with as many results as it is asked for
  yields exactly that many; and an iteration of the search loop requests the count of the
  priority of its own search.
\<close>

theorem requested_result_count:
  "maxResults (tavily_options depth p) = max 4 (min (8 - p) 12) \<and>
   map (\<lambda>p. maxResults (tavily_options depth p)) [1, 2, 3, 4, 5] = [7, 6, 5, 4, 4] \<and>
   4 \<le> maxResults (tavily_options depth p) \<and>
   maxResults (tavily_options depth p) \<le> 12 \<and>
   (\<forall>q. p \<le> q \<longrightarrow> maxResults (tavily_options depth q) \<le> maxResults (tavily_options depth p)) \<and>
   executeWebSearch tvly query depth p =
     executeWebSearch
       (\<lambda>q' opts. if q' = query \<and> opts = tavily_options depth p then tvly q' opts
                  else Inl ''not requested'')
       query depth p \<and>
   ws_results (executeWebSearch
       (\<lambda>q' opts. Inr (g q' (searchDepth opts) (includeAnswer opts) (maxResults opts)))
       query depth p) =
     map (\<lambda>r. \<lparr> w_source = ''web'', w_title = t_title r, w_url = t_url r,
                 w_content = t_content r \<rparr>)
       (g query (if depth = ''advanced'' then ''advanced'' else ''basic'') True
          (max 4 (min (8 - p) 12))) \<and>
   length (ws_results (executeWebSearch echo_provider query depth p)) =
     nat (max 4 (min (8 - p) 12)) \<and>
   map (\<lambda>p. length (ws_results (executeWebSearch echo_provider query depth p))) [1, 2, 3, 4, 5]
     = [7, 6, 5, 4, 4] \<and>
   (tvly_search sv i = echo_provider \<longrightarrow>
      (case snd (search_step sv depth plan mid i st) of
         Inl _ \<Rightarrow> True
       | Inr st1 \<Rightarrow>
           length (ws_results (last (searchResults st1))) =
             nat (max 4 (min (8 - s_priority (searches plan ! i)) 12))))"
proof -
  have echo: "length (ws_results (executeWebSearch echo_provider q d r)) =
                nat (max 4 (min (8 - r) 12))" for q d r
    by (simp add: executeWebSearch_def echo_provider_def tavily_options_def)
  have step: "(case snd (search_step sv depth plan mid i st) of
         Inl _ \<Rightarrow> True
       | Inr st1 \<Rightarrow>
           length (ws_results (last (searchResults st1))) =
             nat (max 4 (min (8 - s_priority (searches plan ! i)) 12)))"
    if e: "tvly_search sv i = echo_provider"
  proof (cases "snd (search_step sv depth plan mid i st)")
    case (Inl err)
    then show ?thesis by simp
  next
    case (Inr st1)
    then have "search_step sv depth plan mid i st = (fst (search_step sv depth plan mid i st), Inr st1)"
      by (metis prod.collapse)
    from search_step_state [OF this]
    have "last (searchResults st1) = search_result sv depth plan i" by simp
    with Inr show ?thesis by (simp add: search_result_def e echo)
  qed
  have rest: "maxResults (tavily_options depth p) = max 4 (min (8 - p) 12) \<and>
   map (\<lambda>p. maxResults (tavily_options depth p)) [1, 2, 3, 4, 5] = [7, 6, 5, 4, 4] \<and>
   4 \<le> maxResults (tavily_options depth p) \<and>
   maxResults (tavily_options depth p) \<le> 12 \<and>
   (\<forall>q. p \<le> q \<longrightarrow> maxResults (tavily_options depth q) \<le> maxResults (tavily_options depth p)) \<and>
   executeWebSearch tvly query depth p =
     executeWebSearch
       (\<lambda>q' opts. if q' = query \<and> opts = tavily_options depth p then tvly q' opts
                  else Inl ''not requested'')
       query depth p \<and>
   ws_results (executeWebSearch
       (\<lambda>q' opts. Inr (g q' (searchDepth opts) (includeAnswer opts) (maxResults opts)))
       query depth p) =
     map (\<lambda>r. \<lparr> w_source = ''web'', w_title = t_title r, w_url = t_url r,
                 w_content = t_content r \<rparr>)
       (g query (if depth = ''advanced'' then ''advanced'' else ''basic'') True
          (max 4 (min (8 - p) 12)))"
    by (auto simp add: tavily_options_def executeWebSearch_def)
  have vals: "map (\<lambda>p. length (ws_results (executeWebSearch echo_provider query depth p)))
                [1, 2, 3, 4, 5] = [7, 6, 5, 4, 4]"
    by (simp add: echo)
  from rest echo [of query depth p] vals step show ?thesis by blast
qed

theorem requested_result_count_witness:
  "(1::int) \<le> 4 \<and> maxResults (tavily_options ''basic'' 4) \<le> maxResults (tavily_options ''basic'' 1) \<and>
   maxResults (tavily_options ''basic'' 1) = 7 \<and> maxResults (tavily_options ''basic'' 4) = 4 \<and>
   length (ws_results (executeWebSearch echo_provider ''qubits'' ''basic'' 1)) = 7 \<and>
   tvly_search echo_services 0 = echo_provider \<and>
   \<not> isl (snd (search_step echo_services ''basic'' example_plan (Some ''m1'') 0
              \<lparr> searchResults = [], analysisResults = [], planLinksData = initial_links,
                currentProgress = 0, currentStatus = Searching \<rparr>)) \<and>
   length (ws_results (last (searchResults (projr (snd
     (search_step echo_services ''basic'' example_plan (Some ''m1'') 0
        \<lparr> searchResults = [], analysisResults = [], planLinksData = initial_links,
          currentProgress = 0, currentStatus = Searching \<rparr>)))))) = 7"
proof -
  let ?st = "\<lparr> searchResults = [], analysisResults = [], planLinksData = initial_links,
                currentProgress = 0, currentStatus = Searching \<rparr>"
  note t = requested_result_count
    [of "''basic''" 1 "\<lambda>q opts. Inl ''down''" "''qubits''" "\<lambda>q d a n. []" echo_services 0
       example_plan "Some ''m1''" ?st]
  have e: "tvly_search echo_services 0 = echo_provider"
    by (simp add: echo_services_def)
  have ok: "search_ok echo_services ''basic'' example_plan 0" by code_simp
  with search_step_result [of echo_services "''basic''" example_plan "Some ''m1''" 0 ?st]
  obtain st1 where r: "snd (search_step echo_services ''basic'' example_plan (Some ''m1'') 0 ?st)
                        = Inr st1"
    by blast
  have pr: "s_priority (searches example_plan ! 0) = 1" by (simp add: example_plan_def)
  from t e r pr have l: "length (ws_results (last (searchResults st1))) = 7" by simp
  from t have a: "maxResults (tavily_options ''basic'' 4) \<le> maxResults (tavily_options ''basic'' 1)"
    by simp
  from t have b: "length (ws_results (executeWebSearch echo_provider ''qubits'' ''basic'' 1)) = 7"
    by simp
  from a b e r l show ?thesis by (simp add: tavily_options_def)
qed

end
